theory Spec2Isabelle
  imports Main "HOL-Library.Sublist"
begin

section \<open>The FQCN fixer: data model\<close>

text \<open>
  The script \<^verbatim>\<open>fqcn-fixer.py\<close> rewrites short Ansible module names at the start of
  task lines to their fully qualified collection names. Text is modelled as
  \<^typ>\<open>string\<close>; a character stands for a code point below 256. Every raise of the
  script is a value of \<open>error\<close>; a function that can raise returns \<open>error + 'a\<close>.
\<close>

datatype error =
    KeyError
  | IndexError
  | ReError
  | NameError
  | CalledProcessError
  | JSONDecodeError
  | ValueError

text \<open>
  \<^verbatim>\<open>fqcndict\<close> is a Python \<^verbatim>\<open>dict\<close> from strings to strings. Its iteration order
  is its insertion order and decides the order of the regex alternatives, so it is an
  association list; \<open>dict_set\<close> is \<^verbatim>\<open>d[k] = v\<close>: an existing key keeps its place.
\<close>

type_synonym fqcndict = "(string \<times> string) list"

fun dict_set :: "string \<Rightarrow> string \<Rightarrow> fqcndict \<Rightarrow> fqcndict" where
  "dict_set k v [] = [(k, v)]"
| "dict_set k v ((k', v') # d) =
     (if k' = k then (k, v) # d else (k', v') # dict_set k v d)"

definition dict_keys :: "fqcndict \<Rightarrow> string list" where
  "dict_keys d = map fst d"

definition dict_values :: "fqcndict \<Rightarrow> string list" where
  "dict_values d = map snd d"

definition dict_get :: "fqcndict \<Rightarrow> string \<Rightarrow> error + string" where
  "dict_get d k = (case map_of d k of None \<Rightarrow> Inl KeyError | Some v \<Rightarrow> Inr v)"

section \<open>The regular expressions of the line rewriter\<close>

text \<open>
  \<^verbatim>\<open>\s\<close> of Python's \<^verbatim>\<open>re\<close> on \<^verbatim>\<open>str\<close>: the code points below 256 for which
  \<^verbatim>\<open>str.isspace\<close> holds.
\<close>

definition is_space :: "char \<Rightarrow> bool" where
  "is_space c = (c \<in> set [CHR 0x09, CHR 0x0A, CHR 0x0B, CHR 0x0C, CHR 0x0D,
                            CHR 0x1C, CHR 0x1D, CHR 0x1E, CHR 0x1F, CHR 0x20,
                            CHR 0x85, CHR 0xA0])"

text \<open>
  The keys are joined with \<^verbatim>\<open>|\<close> and interpolated into the pattern as they are
  (there is no \<^verbatim>\<open>re.escape\<close>). The model covers the keys without a regex special
  character other than the dot (\<open>plain\<close>): in the pattern every character of such a
  key stands for itself, except the dot, which matches any character but a newline.
\<close>

definition regex_special :: "char \<Rightarrow> bool" where
  "regex_special c = (c \<in> set [CHR ''^'', CHR ''$'', CHR ''*'', CHR ''+'', CHR ''?'',
                                 CHR ''{'', CHR ''}'', CHR ''['', CHR '']'', CHR 0x5C,
                                 CHR ''|'', CHR ''('', CHR '')''])"

definition plain :: "string \<Rightarrow> bool" where
  "plain s = (\<not> list_ex regex_special s)"

definition plain_dict :: "fqcndict \<Rightarrow> bool" where
  "plain_dict d = list_all (\<lambda>(k, v). plain k \<and> plain v) d"

text \<open>\<open>match_key k t\<close>: the key \<open>k\<close>, read as a pattern, matched at the start of
  \<open>t\<close>; the result is the text left after the match.\<close>

fun match_key :: "string \<Rightarrow> string \<Rightarrow> string option" where
  "match_key [] t = Some t"
| "match_key (p # ps) [] = None"
| "match_key (p # ps) (c # cs) =
     (if (if p = CHR ''.'' then c \<noteq> CHR 0x0A else p = c) then match_key ps cs else None)"

text \<open>
  \<^verbatim>\<open>(?P<module>k1|k2|...):\<close> at the start of \<open>t\<close>. The alternatives are tried in
  the order of the keys; an alternative has one way to match, so the first key that
  matches and is followed by a colon gives the group. The result is the text of the
  group \<^verbatim>\<open>module\<close>.
\<close>

fun match_module :: "string list \<Rightarrow> string \<Rightarrow> string option" where
  "match_module [] t = None"
| "match_module (k # ks) t =
     (case match_key k t of
        Some (c # rest) \<Rightarrow> if c = CHR '':'' then Some (take (length k) t) else match_module ks t
      | _ \<Rightarrow> match_module ks t)"

text \<open>\<^verbatim>\<open>'|'.join(keys)\<close> of no key at all is the empty pattern: one empty alternative.\<close>

definition alternatives :: "string list \<Rightarrow> string list" where
  "alternatives ks = (if ks = [] then [[]] else ks)"

text \<open>
  \<^verbatim>\<open>^(?P<white>\s*-?\s+)(?P<module>...):\<close> under \<^verbatim>\<open>re.match\<close>. The engine
  backtracks: \<^verbatim>\<open>\s*\<close> takes as many characters as it can and gives them back one by
  one, then \<^verbatim>\<open>-?\<close> takes the dash if there is one and otherwise nothing, then
  \<^verbatim>\<open>\s+\<close> takes as many as it can and gives back down to one. The first split for
  which the module group and the colon match is the result: the text of the group
  \<^verbatim>\<open>white\<close> and the text of the group \<^verbatim>\<open>module\<close>.
\<close>

definition nspace :: "string \<Rightarrow> nat" where
  "nspace t = length (takeWhile is_space t)"

fun splus :: "string list \<Rightarrow> string \<Rightarrow> string \<Rightarrow> nat \<Rightarrow> (string \<times> string) option" where
  "splus ks pre t 0 = None"
| "splus ks pre t (Suc m) =
     (case match_module ks (drop (Suc m) t) of
        Some md \<Rightarrow> Some (pre @ take (Suc m) t, md)
      | None \<Rightarrow> splus ks pre t m)"

definition dash_opt :: "string list \<Rightarrow> string \<Rightarrow> string \<Rightarrow> (string \<times> string) option" where
  "dash_opt ks pre t =
     (case t of
        [] \<Rightarrow> splus ks pre t (nspace t)
      | c # t' \<Rightarrow>
          if c = CHR ''-'' then
            (case splus ks (pre @ [c]) t' (nspace t') of
               Some r \<Rightarrow> Some r
             | None \<Rightarrow> splus ks pre t (nspace t))
          else splus ks pre t (nspace t))"

fun sstar :: "string list \<Rightarrow> string \<Rightarrow> nat \<Rightarrow> (string \<times> string) option" where
  "sstar ks line 0 = dash_opt ks [] line"
| "sstar ks line (Suc n) =
     (case dash_opt ks (take (Suc n) line) (drop (Suc n) line) of
        Some r \<Rightarrow> Some r
      | None \<Rightarrow> sstar ks line n)"

text \<open>\<open>strip_prefix p t\<close>: the literal text \<open>p\<close> at the start of \<open>t\<close>. White space
  and the dash stand for themselves in a pattern.\<close>

fun strip_prefix :: "string \<Rightarrow> string \<Rightarrow> string option" where
  "strip_prefix [] t = Some t"
| "strip_prefix (p # ps) [] = None"
| "strip_prefix (p # ps) (c # cs) = (if p = c then strip_prefix ps cs else None)"

text \<open>
  The compiled pattern held in \<^verbatim>\<open>fqcnregex\<close>: \<^verbatim>\<open>_fqcnregex\<close>, or the pattern
  \<^verbatim>\<open>'^%s(?P<module>%s):'\<close> built from the captured prefix. A match object is the
  pair of its groups; the second pattern has no group \<^verbatim>\<open>white\<close>.
\<close>

datatype regex = Initial | Prefixed string

fun regex_match :: "regex \<Rightarrow> string list \<Rightarrow> string \<Rightarrow> (string option \<times> string) option" where
  "regex_match Initial ks line =
     map_option (\<lambda>(w, md). (Some w, md)) (sstar (alternatives ks) line (nspace line))"
| "regex_match (Prefixed sw) ks line =
     (case strip_prefix sw line of
        None \<Rightarrow> None
      | Some t \<Rightarrow> map_option (\<lambda>md. (None, md)) (match_module (alternatives ks) t))"

text \<open>
  Two shapes used to state facts about the patterns. A key has a \<open>name_start\<close> when
  it is not empty and begins with a character that is neither white space nor a dash
  nor a dot, as module names and collection names do. A text is \<open>white_shaped\<close> when
  \<^verbatim>\<open>\s*-?\s+\<close> can take it whole: white space, or white space, a dash and white
  space.
\<close>

definition name_start :: "string \<Rightarrow> bool" where
  "name_start k = (case k of [] \<Rightarrow> False
     | c # _ \<Rightarrow> \<not> is_space c \<and> c \<noteq> CHR ''-'' \<and> c \<noteq> CHR ''.'')"

definition white_shaped :: "string \<Rightarrow> bool" where
  "white_shaped w \<longleftrightarrow>
     (w \<noteq> [] \<and> list_all is_space w)
     \<or> (\<exists>a b. w = a @ CHR ''-'' # b \<and> list_all is_space a \<and> b \<noteq> [] \<and> list_all is_space b)"

section \<open>The substitution\<close>

text \<open>
  \<^verbatim>\<open>re.sub('^(%s)%s:' % (startingwhitespaces, fqcnmodule), '\\1%s:' % value, line)\<close>.
  The replacement is a template: \<^verbatim>\<open>\1\<close> is the first group, unless a digit follows.
  Then \<^verbatim>\<open>\1\<close> and two octal digits are the character with that octal code, and
  \<^verbatim>\<open>\1\<close> and one digit are a reference to a group from 10 to 19, which the pattern
  does not have: \<^verbatim>\<open>re.error\<close>. \<open>expand_template g body\<close> takes the text of group 1
  and the template after \<^verbatim>\<open>\1\<close>; it covers the bodies without a backslash.
\<close>

definition is_digit :: "char \<Rightarrow> bool" where
  "is_digit c = (c \<in> set ''0123456789'')"

definition is_octdigit :: "char \<Rightarrow> bool" where
  "is_octdigit c = (c \<in> set ''01234567'')"

definition digit_val :: "char \<Rightarrow> nat" where
  "digit_val c = of_char c - 48"

fun expand_template :: "string \<Rightarrow> string \<Rightarrow> error + string" where
  "expand_template g [] = Inr g"
| "expand_template g [c] = (if is_digit c then Inl ReError else Inr (g @ [c]))"
| "expand_template g (c # c' # rest) =
     (if is_digit c then
        (if is_octdigit c \<and> is_octdigit c'
         then Inr (char_of (64 + 8 * digit_val c + digit_val c') # rest)
         else Inl ReError)
      else Inr (g @ c # c' # rest))"

text \<open>The template is parsed before the search; the pattern is anchored, so at most
  one match, at the start of the line, is replaced.\<close>

definition re_sub :: "string \<Rightarrow> string \<Rightarrow> string \<Rightarrow> string \<Rightarrow> error + string" where
  "re_sub sw fqcnmodule v line =
     (case expand_template sw (v @ '':'') of
        Inl e \<Rightarrow> Inl e
      | Inr s \<Rightarrow>
          (case strip_prefix sw line of
             None \<Rightarrow> Inr line
           | Some t \<Rightarrow>
               (case match_key fqcnmodule t of
                  Some (c # rest) \<Rightarrow> if c = CHR '':'' then Inr (s @ rest) else Inr line
                | _ \<Rightarrow> Inr line)))"

section \<open>The loop over the lines of a file\<close>

text \<open>
  The loop variables: \<^verbatim>\<open>startingwhitespaces\<close> is \<^verbatim>\<open>False\<close> (here \<open>None\<close>) or the
  captured prefix; \<^verbatim>\<open>fqcnregex\<close> is the pattern in use. \<open>py_not\<close> is Python's
  \<^verbatim>\<open>not\<close> on that variable: true of \<^verbatim>\<open>False\<close> and of the empty string.
\<close>

record loop_state =
  startingwhitespaces :: "string option"
  fqcnregex :: regex

definition init_state :: loop_state where
  "init_state = \<lparr>startingwhitespaces = None, fqcnregex = Initial\<rparr>"

definition py_not :: "string option \<Rightarrow> bool" where
  "py_not s = (case s of None \<Rightarrow> True | Some w \<Rightarrow> w = [])"

text \<open>
  Lines 229 to 233: on a match while \<^verbatim>\<open>startingwhitespaces\<close> is unset, the group
  \<^verbatim>\<open>white\<close> is stored and the pattern is compiled again with it. Asking a match of
  the second pattern for that group would raise \<^verbatim>\<open>IndexError\<close>.
\<close>

definition lock_prefix :: "loop_state \<Rightarrow> string option \<Rightarrow> error + loop_state" where
  "lock_prefix st white =
     (if py_not (startingwhitespaces st) then
        (case white of
           None \<Rightarrow> Inl IndexError
         | Some w \<Rightarrow> Inr \<lparr>startingwhitespaces = Some w, fqcnregex = Prefixed w\<rparr>)
      else Inr st)"

text \<open>\<^verbatim>\<open>'%s' % startingwhitespaces\<close>.\<close>

definition format_s :: "string option \<Rightarrow> string" where
  "format_s s = (case s of None \<Rightarrow> ''False'' | Some w \<Rightarrow> w)"

text \<open>
  One pass of the loop body, lines 226 to 245: the new line, the progress symbol
  printed to the error stream, and the loop variables after the line. The arguments of
  \<^verbatim>\<open>re.sub\<close> are evaluated first, so a module text that is not a key raises
  \<^verbatim>\<open>KeyError\<close> before any substitution.
\<close>

definition line_step :: "fqcndict \<Rightarrow> loop_state \<Rightarrow> string \<Rightarrow>
    error + (string \<times> char \<times> loop_state)" where
  "line_step d st line =
     (case regex_match (fqcnregex st) (dict_keys d) line of
        None \<Rightarrow> Inr (line, CHR ''.'', st)
      | Some (white, fqcnmodule) \<Rightarrow>
          (case lock_prefix st white of
             Inl e \<Rightarrow> Inl e
           | Inr st' \<Rightarrow>
               (case dict_get d fqcnmodule of
                  Inl e \<Rightarrow> Inl e
                | Inr v \<Rightarrow>
                    (case re_sub (format_s (startingwhitespaces st')) fqcnmodule v line of
                       Inl e \<Rightarrow> Inl e
                     | Inr nline \<Rightarrow>
                         Inr (nline, if fqcnmodule = v then CHR ''.'' else CHR ''*'', st')))))"

text \<open>The loop over the lines of one file: \<^verbatim>\<open>changedlines\<close> and the symbols printed.\<close>

fun rewrite_lines :: "fqcndict \<Rightarrow> loop_state \<Rightarrow> string list \<Rightarrow>
    error + (string list \<times> string)" where
  "rewrite_lines d st [] = Inr ([], [])"
| "rewrite_lines d st (line # ls) =
     (case line_step d st line of
        Inl e \<Rightarrow> Inl e
      | Inr (nline, symb, st') \<Rightarrow>
          (case rewrite_lines d st' ls of
             Inl e \<Rightarrow> Inl e
           | Inr (nls, symbs) \<Rightarrow> Inr (nline # nls, symb # symbs)))"

text \<open>Every file starts from the initial loop variables (lines 221 and 222).\<close>

definition rewrite_file :: "fqcndict \<Rightarrow> string list \<Rightarrow> error + (string list \<times> string)" where
  "rewrite_file d ls = rewrite_lines d init_state ls"

text \<open>
  The loop over the files (line 214): one file after the other, the first raise ends
  the run. A file is read when its turn comes. With \<^verbatim>\<open>writefiles\<close>,
  \<^verbatim>\<open>fileinput\<close> moves the file to its path with the backup extension and prints
  the new lines into a new file at its path, so a path that stands twice in the list
  is read the second time as the first pass left it. \<open>lines_of\<close> is the content of
  the files by path; the result holds, for every file, its path, \<^verbatim>\<open>originallines\<close>,
  \<^verbatim>\<open>changedlines\<close> and the symbols printed. (With an empty backup extension
  \<^verbatim>\<open>fileinput\<close> uses the extension \<^verbatim>\<open>.bak\<close> and removes the copy after the
  file; that copy is left out.)
\<close>

definition write_back :: "string \<Rightarrow> string \<Rightarrow> string list \<Rightarrow> (string \<Rightarrow> string list) \<Rightarrow>
    (string \<Rightarrow> string list)" where
  "write_back backup f nls lines_of = (lines_of(f @ backup := lines_of f))(f := nls)"

fun parse_files :: "fqcndict \<Rightarrow> bool \<Rightarrow> string \<Rightarrow> (string \<Rightarrow> string list) \<Rightarrow> string list \<Rightarrow>
    error + (string \<times> string list \<times> string list \<times> string) list" where
  "parse_files d inplace backup lines_of [] = Inr []"
| "parse_files d inplace backup lines_of (f # fs) =
     (case rewrite_file d (lines_of f) of
        Inl e \<Rightarrow> Inl e
      | Inr (nls, symbs) \<Rightarrow>
          (case parse_files d inplace backup
                  (if inplace then write_back backup f nls lines_of else lines_of) fs of
             Inl e \<Rightarrow> Inl e
           | Inr rs \<Rightarrow> Inr ((f, lines_of f, nls, symbs) # rs)))"

section \<open>The mapping builder\<close>

text \<open>
  The result of \<^verbatim>\<open>subprocess.run\<close>: the return code (negative when a signal ended
  the child) and the standard output as \<^verbatim>\<open>json.loads\<close> reads it, \<open>None\<close> when it
  is not JSON. The listing is read for its keys only; a module's detail is an object
  keyed by module name, of objects keyed by section (\<^verbatim>\<open>doc\<close> among them), of objects
  with string fields.
\<close>

record 'a completed_process =
  returncode :: int
  stdout :: "'a option"

type_synonym docobj = "(string \<times> string) list"
type_synonym moddict = "(string \<times> docobj) list"
type_synonym modjson = "(string \<times> moddict) list"

text \<open>\<^verbatim>\<open>fqcn.split('.')[-1]\<close>\<close>

definition last_segment :: "string \<Rightarrow> string" where
  "last_segment s = rev (takeWhile (\<lambda>c. c \<noteq> CHR ''.'') (rev s))"

text \<open>The body of the loop over the module names, lines 141 to 159.\<close>

definition gen_module :: "(string \<Rightarrow> modjson completed_process) \<Rightarrow> string \<Rightarrow> fqcndict \<Rightarrow>
    error + fqcndict" where
  "gen_module ansible_doc modname d =
     (let modpr = ansible_doc modname in
      if returncode modpr > 0 then Inr d
      else
        (case stdout modpr of
           None \<Rightarrow> Inl JSONDecodeError
         | Some modjson \<Rightarrow>
             if modjson = [] \<or> modname \<notin> set (map fst modjson) then Inr d
             else
               (case map_of modjson modname of
                  None \<Rightarrow> Inl KeyError
                | Some moddict \<Rightarrow>
                    (case map_of moddict ''doc'' of
                       None \<Rightarrow> Inr d
                     | Some doc \<Rightarrow>
                         (case map_of doc ''collection'' of
                            None \<Rightarrow> Inr d
                          | Some collection \<Rightarrow>
                              (case map_of doc ''module'' of
                                 None \<Rightarrow> Inr d
                               | Some module \<Rightarrow>
                                   (let fqcn = collection @ ''.'' @ module;
                                        nonfqcn = last_segment fqcn
                                    in Inr (dict_set nonfqcn fqcn d))))))))"

fun gen_modules :: "(string \<Rightarrow> modjson completed_process) \<Rightarrow> string list \<Rightarrow> fqcndict \<Rightarrow>
    error + fqcndict" where
  "gen_modules ansible_doc [] d = Inr d"
| "gen_modules ansible_doc (modname # ms) d =
     (case gen_module ansible_doc modname d of
        Inl e \<Rightarrow> Inl e
      | Inr d' \<Rightarrow> gen_modules ansible_doc ms d')"

text \<open>The dict that \<^verbatim>\<open>yaml.load\<close> builds from the pairs of a mapping document.\<close>

definition dict_of_pairs :: "(string \<times> string) list \<Rightarrow> fqcndict" where
  "dict_of_pairs ps = foldl (\<lambda>d (k, v). dict_set k v d) [] ps"

text \<open>Lines 176 and 177: every value of a copy of the dict becomes a key of the dict,
  mapped to itself.\<close>

definition add_fqcn_keys :: "fqcndict \<Rightarrow> fqcndict" where
  "add_fqcn_keys d = foldl (\<lambda>acc fqcn. dict_set fqcn fqcn acc) d (dict_values d)"

section \<open>The run\<close>

text \<open>
  The parsed command line, and what the run reads from outside: the YAML files (\<open>None\<close>
  for \<^verbatim>\<open>FileNotFoundError\<close>), the two \<^verbatim>\<open>ansible-doc\<close> calls, the directory walk,
  the lines of the files, and the library functions on paths and names that the script
  calls, taken as they are: \<^verbatim>\<open>os.path.abspath\<close>, \<^verbatim>\<open>PurePath(path).match(ep)\<close>
  (which raises \<^verbatim>\<open>ValueError\<close> on a pattern without parts),
  \<^verbatim>\<open>str(PurePath(path))\<close>, \<^verbatim>\<open>fnmatch.fnmatch\<close> and \<^verbatim>\<open>str.lower\<close>. Reading
  and writing the files is taken to succeed.
\<close>

record args =
  directory :: string
  fileextensions :: "string list"
  exclude_paths :: "string list"
  config :: "string option"
  writefiles :: bool
  backupextension :: string
  printdiff :: bool
  fqcnmapfile :: string
  updatefqcnmapfile :: bool

type_synonym configdoc = "(string \<times> string list) list"

record env =
  fqcn_yaml :: "string \<Rightarrow> (string \<times> string) list option"
  config_yaml :: "string \<Rightarrow> configdoc option"
  ansible_doc_list :: "string list completed_process"
  ansible_doc :: "string \<Rightarrow> modjson completed_process"
  walk :: "string \<Rightarrow> (string \<times> string list) list"
  file_lines :: "string \<Rightarrow> string list"
  abspath :: "string \<Rightarrow> string"
  pure_match :: "string \<Rightarrow> string \<Rightarrow> error + bool"
  pure_str :: "string \<Rightarrow> string"
  fnmatch :: "string \<Rightarrow> string \<Rightarrow> bool"
  lower :: "string \<Rightarrow> string"

text \<open>
  Lines 123 to 177. The result is the dict after line 177 and, when the map was
  generated, the dict that was dumped to the map file.
\<close>

definition build_map :: "args \<Rightarrow> env \<Rightarrow> error + (fqcndict \<times> fqcndict option)" where
  "build_map a e =
     (let (fqcndict0, found) =
            (case fqcn_yaml e (fqcnmapfile a) of
               None \<Rightarrow> ([], False)
             | Some ps \<Rightarrow> (dict_of_pairs ps, True))
      in
      if \<not> found \<or> updatefqcnmapfile a then
        (let modulespr = ansible_doc_list e in
         if returncode modulespr \<noteq> 0 then Inl CalledProcessError
         else
           (case stdout modulespr of
              None \<Rightarrow> Inl JSONDecodeError
            | Some modnames \<Rightarrow>
                (case gen_modules (ansible_doc e) modnames fqcndict0 of
                   Inl err \<Rightarrow> Inl err
                 | Inr d \<Rightarrow> Inr (add_fqcn_keys d, Some d))))
      else Inr (add_fqcn_keys fqcndict0, None))"

text \<open>Lines 42 to 55.\<close>

definition general_exclude_paths :: "string list" where
  "general_exclude_paths =
     [''.cache'', ''.git'', ''.hg'', ''.svn'', ''.tox'', ''.collections'', ''*/.github/*'',
      ''*/molecule/*'', ''*/group_vars/*'', ''*/host_vars/*'', ''*/vars/*'', ''*/defaults/*'']"

text \<open>Lines 180 to 183.\<close>

definition build_exclude_paths :: "args \<Rightarrow> string list" where
  "build_exclude_paths a = (exclude_paths a @ general_exclude_paths) @ [fqcnmapfile a]"

text \<open>
  Lines 186 to 192. Line 186 assigns \<^verbatim>\<open>config\<close>; the name \<^verbatim>\<open>_config\<close> is bound
  only by line 190, when a config path was given and the file was opened. The result is
  the binding of \<^verbatim>\<open>_config\<close>: \<open>None\<close> when the name is unbound.
\<close>

definition read_config :: "args \<Rightarrow> env \<Rightarrow> configdoc option" where
  "read_config a e =
     (case config a of
        None \<Rightarrow> None
      | Some p \<Rightarrow> if p = [] then None else config_yaml e p)"

text \<open>Lines 193 to 195; reading an unbound name raises \<^verbatim>\<open>NameError\<close>.\<close>

definition config_exclude_paths :: "env \<Rightarrow> configdoc option \<Rightarrow> string list \<Rightarrow>
    error + string list" where
  "config_exclude_paths e binding eps =
     (case binding of
        None \<Rightarrow> Inl NameError
      | Some c \<Rightarrow>
          if c \<noteq> [] \<and> ''exclude_paths'' \<in> set (map fst c) then
            (case map_of c ''exclude_paths'' of
               None \<Rightarrow> Inl KeyError
             | Some xs \<Rightarrow> Inr (eps @ map (abspath e) xs))
          else Inr eps)"

text \<open>Lines 22 to 37: \<^verbatim>\<open>any\<close> over the exclusion list, each test an \<^verbatim>\<open>or\<close> chain
  that stops at its first true operand.\<close>

fun isexcluded :: "env \<Rightarrow> string \<Rightarrow> string list \<Rightarrow> error + bool" where
  "isexcluded e path [] = Inr False"
| "isexcluded e path (ep # eps) =
     (if prefix ep (abspath e path) \<or> prefix (abspath e ep) (abspath e path) then Inr True
      else
        (case pure_match e path ep of
           Inl err \<Rightarrow> Inl err
         | Inr matched \<Rightarrow>
             if matched \<or> fnmatch e (abspath e path) ep \<or> fnmatch e (pure_str e path) ep
             then Inr True
             else isexcluded e path eps))"

text \<open>\<^verbatim>\<open>os.path.join\<close> of two components, on POSIX.\<close>

definition path_join :: "string \<Rightarrow> string \<Rightarrow> string" where
  "path_join a b =
     (if prefix ''/'' b then b
      else if a = [] \<or> suffix ''/'' a then a @ b
      else a @ ''/'' @ b)"

text \<open>Lines 203 to 208, the loop over the extensions for one file name: a file is
  added once for every extension it ends with, until it is found excluded.\<close>

fun scan_extensions :: "env \<Rightarrow> string list \<Rightarrow> string \<Rightarrow> string \<Rightarrow> string list \<Rightarrow>
    error + string list" where
  "scan_extensions e eps dirpath name [] = Inr []"
| "scan_extensions e eps dirpath name (ext # exts) =
     (if suffix (lower e ext) (lower e name) then
        (let f = path_join dirpath name in
         case isexcluded e f eps of
           Inl err \<Rightarrow> Inl err
         | Inr excluded \<Rightarrow>
             if excluded then Inr []
             else
               (case scan_extensions e eps dirpath name exts of
                  Inl err \<Rightarrow> Inl err
                | Inr fs \<Rightarrow> Inr (f # fs)))
      else scan_extensions e eps dirpath name exts)"

text \<open>Line 202, the loop over the file names of one directory.\<close>

fun scan_names :: "env \<Rightarrow> string list \<Rightarrow> string list \<Rightarrow> string \<Rightarrow> string list \<Rightarrow>
    error + string list" where
  "scan_names e eps exts dirpath [] = Inr []"
| "scan_names e eps exts dirpath (name # names) =
     (case scan_extensions e eps dirpath name exts of
        Inl err \<Rightarrow> Inl err
      | Inr fs \<Rightarrow>
          (case scan_names e eps exts dirpath names of
             Inl err \<Rightarrow> Inl err
           | Inr gs \<Rightarrow> Inr (fs @ gs)))"

text \<open>Lines 199 to 201, the loop over the walk. Skipping an excluded directory does
  not prune the walk.\<close>

fun scan_dirs :: "env \<Rightarrow> string list \<Rightarrow> string list \<Rightarrow> (string \<times> string list) list \<Rightarrow>
    error + string list" where
  "scan_dirs e eps exts [] = Inr []"
| "scan_dirs e eps exts ((dirpath, files) # ds) =
     (case isexcluded e dirpath eps of
        Inl err \<Rightarrow> Inl err
      | Inr excluded \<Rightarrow>
          if excluded then scan_dirs e eps exts ds
          else
            (case scan_names e eps exts dirpath files of
               Inl err \<Rightarrow> Inl err
             | Inr fs \<Rightarrow>
                 (case scan_dirs e eps exts ds of
                    Inl err \<Rightarrow> Inl err
                  | Inr gs \<Rightarrow> Inr (fs @ gs))))"

text \<open>Lines 198 to 208: \<^verbatim>\<open>parsefiles\<close>.\<close>

definition find_files :: "args \<Rightarrow> env \<Rightarrow> string list \<Rightarrow> error + string list" where
  "find_files a e eps = scan_dirs e eps (fileextensions a) (walk e (abspath e (directory a)))"

text \<open>
  What a run that ends normally has done: the dict dumped to the map file, if any, and
  for every parsed file the lines read, the new lines (printed into the file when
  \<^verbatim>\<open>writefiles\<close> is set, and the new side of the diff when \<^verbatim>\<open>printdiff\<close> is) and
  the progress symbols. \<open>main\<close> is the script from line 123 on; the first raise ends
  it.
\<close>

record report =
  mapfile_written :: "fqcndict option"
  parsed :: "(string \<times> string list \<times> string list \<times> string) list"

definition main :: "args \<Rightarrow> env \<Rightarrow> error + report" where
  "main a e =
     (case build_map a e of
        Inl err \<Rightarrow> Inl err
      | Inr (d, written) \<Rightarrow>
          (case config_exclude_paths e (read_config a e) (build_exclude_paths a) of
             Inl err \<Rightarrow> Inl err
           | Inr eps \<Rightarrow>
               (case find_files a e eps of
                  Inl err \<Rightarrow> Inl err
                | Inr parsefiles \<Rightarrow>
                    (case parse_files d (writefiles a) (backupextension a) (file_lines e) parsefiles of
                       Inl err \<Rightarrow> Inl err
                     | Inr rs \<Rightarrow> Inr \<lparr>mapfile_written = written, parsed = rs\<rparr>))))"

section \<open>Example inputs\<close>

text \<open>Maps as the run holds them after line 177, from map files with these pairs.\<close>

definition command_map :: fqcndict where
  "command_map = add_fqcn_keys (dict_of_pairs
     [(''command'', ''ansible.builtin.command''), (''copy'', ''ansible.builtin.copy'')])"

definition foo_map :: fqcndict where
  "foo_map = add_fqcn_keys (dict_of_pairs [(''foo'', ''ns.coll.foo'')])"

definition overlap_map :: fqcndict where
  "overlap_map = add_fqcn_keys (dict_of_pairs [(''bar'', ''ns.foo.bar''), (''foo'', ''ns.foo'')])"

text \<open>A map with a key that begins with a space.\<close>

definition space_key_map :: fqcndict where
  "space_key_map = add_fqcn_keys (dict_of_pairs [(''x'', ''ns.x''), ('' x'', ''ns.y'')])"

text \<open>A task file with module lines at two indentations.\<close>

definition playbook :: "string list" where
  "playbook =
     [''- hosts: all\<newline>'',
      ''  tasks:\<newline>'',
      ''  - command: echo hi\<newline>'',
      ''    - copy: src=a dest=b\<newline>'',
      ''  - copy: src=a dest=b\<newline>'']"

text \<open>
  A run in the directory \<^verbatim>\<open>/w\<close>, which holds the map file, a config file and one
  task file. All paths are absolute and normal and all names are lower case, so
  \<^verbatim>\<open>abspath\<close> and \<^verbatim>\<open>lower\<close> return their arguments; no path of the example
  matches a pattern of the exclusion list.
\<close>

definition demo_args :: args where
  "demo_args =
     \<lparr>directory = ''/w'', fileextensions = [''yml'', ''yaml''], exclude_paths = [],
      config = Some ''/w/.ansible-lint'', writefiles = False, backupextension = ''.bak'',
      printdiff = True, fqcnmapfile = ''/w/fqcn.yml'', updatefqcnmapfile = False\<rparr>"

definition demo_doc :: "string \<Rightarrow> modjson completed_process" where
  "demo_doc modname =
     \<lparr>returncode = 0,
      stdout = Some [(modname, [(''doc'', [(''collection'', ''ns.coll''), (''module'', modname)])])]\<rparr>"

definition demo_env :: env where
  "demo_env =
     \<lparr>fqcn_yaml = (\<lambda>p. if p = ''/w/fqcn.yml'' then Some [(''foo'', ''ns.coll.foo'')] else None),
      config_yaml = (\<lambda>p. if p = ''/w/.ansible-lint'' then Some [(''exclude_paths'', [''/w/old''])]
                          else None),
      ansible_doc_list = \<lparr>returncode = 0, stdout = Some [''foo'']\<rparr>,
      ansible_doc = demo_doc,
      walk = (\<lambda>p. if p = ''/w'' then [(''/w'', [''site.yml'', ''fqcn.yml''])] else []),
      file_lines = (\<lambda>p. if p = ''/w/site.yml'' then [''- foo: x\<newline>'', ''- ns.coll.foo: y\<newline>'']
                         else []),
      abspath = (\<lambda>p. p),
      pure_match = (\<lambda>p ep. Inr False),
      pure_str = (\<lambda>p. p),
      fnmatch = (\<lambda>p ep. False),
      lower = (\<lambda>s. s)\<rparr>"

text \<open>
  The same run with the map file given as \<^verbatim>\<open>//w/fqcn.yml\<close>, which
  \<^verbatim>\<open>os.path.abspath\<close> leaves as it is and which is the file \<^verbatim>\<open>/w/fqcn.yml\<close> that
  the walk finds. Its mapping is written two columns in.
\<close>

definition slash_args :: args where
  "slash_args = demo_args\<lparr>fqcnmapfile := ''//w/fqcn.yml''\<rparr>"

definition slash_env :: env where
  "slash_env =
     demo_env
       \<lparr>fqcn_yaml := (\<lambda>p. if p = ''//w/fqcn.yml'' \<or> p = ''/w/fqcn.yml''
                          then Some [(''foo'', ''ns.coll.foo'')] else None),
        file_lines := (\<lambda>p. if p = ''//w/fqcn.yml'' \<or> p = ''/w/fqcn.yml''
                           then [''  foo: ns.coll.foo\<newline>'']
                           else file_lines demo_env p)\<rparr>"

text \<open>The detail query of one module ended by a signal, with nothing on its output.\<close>

definition killed_doc :: "string \<Rightarrow> modjson completed_process" where
  "killed_doc modname =
     (if modname = ''ping'' then \<lparr>returncode = - 9, stdout = None\<rparr> else demo_doc modname)"

text \<open>The detail query of one module failing with exit status 1, and one answering
  with a documentation object that has no \<^verbatim>\<open>collection\<close>.\<close>

definition failed_doc :: "string \<Rightarrow> modjson completed_process" where
  "failed_doc modname =
     (if modname = ''ping'' then \<lparr>returncode = 1, stdout = None\<rparr> else demo_doc modname)"

definition incomplete_doc :: "string \<Rightarrow> modjson completed_process" where
  "incomplete_doc modname =
     (if modname = ''ping''
      then \<lparr>returncode = 0, stdout = Some [(modname, [(''doc'', [(''module'', modname)])])]\<rparr>
      else demo_doc modname)"

section \<open>Facts about the patterns and the loop\<close>

lemma strip_prefix_Some: "strip_prefix p t = Some r \<longleftrightarrow> t = p @ r"
  by (induction p t rule: strip_prefix.induct) auto

lemma strip_prefix_None: "strip_prefix p t = None \<longleftrightarrow> \<not> prefix p t"
  by (induction p t rule: strip_prefix.induct) auto

lemma match_key_Some:
  "match_key k t = Some r \<Longrightarrow> t = take (length k) t @ r"
  by (induction k t rule: match_key.induct) (auto split: if_splits)

lemma match_module_Some:
  "match_module ks t = Some m \<Longrightarrow> \<exists>rest. t = m @ CHR '':'' # rest"
proof (induction ks)
  case Nil
  then show ?case by simp
next
  case (Cons k ks)
  show ?case
  proof (cases "match_key k t")
    case None
    with Cons show ?thesis by simp
  next
    case (Some r)
    note mk = match_key_Some [OF Some]
    show ?thesis
    proof (cases r)
      case Nil
      with Cons Some show ?thesis by simp
    next
      case (Cons c rest)
      show ?thesis
      proof (cases "c = CHR '':''")
        case True
        with Cons.prems Some Cons have "m = take (length k) t" by simp
        with mk Cons True show ?thesis by metis
      next
        case False
        with Cons.prems Cons.IH Some Cons show ?thesis by simp
      qed
    qed
  qed
qed

lemma regex_match_Prefixed:
  "regex_match (Prefixed w) ks l = Some (wh, m) \<Longrightarrow>
     wh = None \<and> (\<exists>rest. l = w @ m @ CHR '':'' # rest)"
  by (auto split: option.splits simp: strip_prefix_Some dest: match_module_Some)

lemma regex_match_Prefixed_None:
  "\<not> prefix w l \<Longrightarrow> regex_match (Prefixed w) ks l = None"
  by (simp add: strip_prefix_None [symmetric])

lemma line_step_unmatched:
  "regex_match (fqcnregex st) (dict_keys d) line = None \<Longrightarrow>
     line_step d st line = Inr (line, CHR ''.'', st)"
  by (simp add: line_step_def)

lemma line_step_locked_state:
  assumes "line_step d \<lparr>startingwhitespaces = Some w, fqcnregex = Prefixed w\<rparr> line = Inr (nl, sy, st')"
  shows "st' = \<lparr>startingwhitespaces = Some w, fqcnregex = Prefixed w\<rparr>"
  using assms
  by (auto simp: line_step_def lock_prefix_def py_not_def
           split: option.splits sum.splits if_splits dest: regex_match_Prefixed)

lemma line_step_first_match:
  assumes "regex_match Initial (dict_keys d) line = Some (Some w, m)"
    and "line_step d init_state line = Inr (nl, sy, st')"
  shows "st' = \<lparr>startingwhitespaces = Some w, fqcnregex = Prefixed w\<rparr>"
  using assms
  by (auto simp: line_step_def lock_prefix_def py_not_def init_state_def
           split: option.splits sum.splits if_splits)


lemma rewrite_lines_locked:
  assumes "rewrite_lines d \<lparr>startingwhitespaces = Some w, fqcnregex = Prefixed w\<rparr> ls = Inr (nls, symbs)"
    and "j < length ls"
    and "regex_match (Prefixed w) (dict_keys d) (ls ! j) = None"
  shows "nls ! j = ls ! j \<and> symbs ! j = CHR ''.''"
  using assms
proof (induction ls arbitrary: nls symbs j)
  case Nil
  then show ?case by simp
next
  case (Cons l ls)
  let ?st = "\<lparr>startingwhitespaces = Some w, fqcnregex = Prefixed w\<rparr>"
  from Cons.prems(1) obtain nl sy st' nls' symbs'
    where step: "line_step d ?st l = Inr (nl, sy, st')"
      and rest: "rewrite_lines d st' ls = Inr (nls', symbs')"
      and out: "nls = nl # nls'" "symbs = sy # symbs'"
    by (auto split: sum.splits prod.splits)
  have st': "st' = ?st" by (rule line_step_locked_state [OF step])
  show ?case
  proof (cases j)
    case 0
    with Cons.prems(3) have "line_step d ?st l = Inr (l, CHR ''.'', ?st)"
      by (simp add: line_step_unmatched)
    with step out 0 show ?thesis by simp
  next
    case (Suc j')
    with Cons.prems(2,3) have "j' < length ls"
      and "regex_match (Prefixed w) (dict_keys d) (ls ! j') = None" by simp_all
    with Cons.IH [of nls' symbs' j'] rest st' have "nls' ! j' = ls ! j' \<and> symbs' ! j' = CHR ''.''"
      by simp
    with out Suc show ?thesis by simp
  qed
qed

lemma rewrite_lines_after_first_match:
  assumes "rewrite_lines d init_state ls = Inr (nls, symbs)"
    and "\<forall>k<i. regex_match Initial (dict_keys d) (ls ! k) = None"
    and "regex_match Initial (dict_keys d) (ls ! i) = Some (Some w, m)"
    and "i < j" and "j < length ls"
    and "regex_match (Prefixed w) (dict_keys d) (ls ! j) = None"
  shows "nls ! j = ls ! j \<and> symbs ! j = CHR ''.''"
  using assms
proof (induction ls arbitrary: nls symbs i j)
  case Nil
  then show ?case by simp
next
  case (Cons l ls)
  from Cons.prems(1) obtain nl sy st' nls' symbs'
    where step: "line_step d init_state l = Inr (nl, sy, st')"
      and rest: "rewrite_lines d st' ls = Inr (nls', symbs')"
      and out: "nls = nl # nls'" "symbs = sy # symbs'"
    by (auto split: sum.splits prod.splits)
  from Cons.prems(4) obtain j' where j: "j = Suc j'" by (cases j) auto
  with Cons.prems(5,6) have j': "j' < length ls"
    "regex_match (Prefixed w) (dict_keys d) (ls ! j') = None" by simp_all
  show ?case
  proof (cases i)
    case 0
    with Cons.prems(3) have "regex_match Initial (dict_keys d) l = Some (Some w, m)" by simp
    from line_step_first_match [OF this step]
    have "st' = \<lparr>startingwhitespaces = Some w, fqcnregex = Prefixed w\<rparr>" .
    with rest j' rewrite_lines_locked [of d w ls nls' symbs' j']
    have "nls' ! j' = ls ! j' \<and> symbs' ! j' = CHR ''.''" by simp
    with out j show ?thesis by simp
  next
    case (Suc i')
    with Cons.prems(2) have "regex_match Initial (dict_keys d) l = None" by auto
    then have "line_step d init_state l = Inr (l, CHR ''.'', init_state)"
      by (simp add: line_step_unmatched init_state_def)
    with step have st': "st' = init_state" by simp
    from Suc Cons.prems(2) have a: "\<forall>k<i'. regex_match Initial (dict_keys d) (ls ! k) = None"
      by auto
    from Suc Cons.prems(3) have b: "regex_match Initial (dict_keys d) (ls ! i') = Some (Some w, m)"
      by simp
    from Suc Cons.prems(4) j have c: "i' < j'" by simp
    from Cons.IH [OF _ a b c j'] rest st' have "nls' ! j' = ls ! j' \<and> symbs' ! j' = CHR ''.''"
      by simp
    with out j show ?thesis by simp
  qed
qed

lemma parse_files_entry:
  "parse_files d inplace backup lines_of fs = Inr rs \<Longrightarrow> (f, ls, nls, symbs) \<in> set rs \<Longrightarrow>
     rewrite_file d ls = Inr (nls, symbs)"
proof (induction fs arbitrary: lines_of rs)
  case Nil
  then show ?case by simp
next
  case (Cons g fs)
  from Cons.prems(1) obtain nls' symbs' rs'
    where here: "rewrite_file d (lines_of g) = Inr (nls', symbs')"
      and rest: "parse_files d inplace backup
                   (if inplace then write_back backup g nls' lines_of else lines_of) fs = Inr rs'"
      and rs: "rs = (g, lines_of g, nls', symbs') # rs'"
    by (auto split: sum.splits prod.splits)
  from Cons.prems(2) rs consider "(f, ls, nls, symbs) = (g, lines_of g, nls', symbs')"
    | "(f, ls, nls, symbs) \<in> set rs'" by auto
  then show ?case
  proof cases
    case 1
    with here show ?thesis by simp
  next
    case 2
    with rest show ?thesis by (rule Cons.IH)
  qed
qed

lemma parse_files_paths:
  "parse_files d inplace backup lines_of fs = Inr rs \<Longrightarrow> map fst rs = fs"
  by (induction fs arbitrary: lines_of rs) (auto split: sum.splits prod.splits)

lemmas eval_defs = line_step_def dict_keys_def alternatives_def nspace_def is_space_def
  dash_opt_def lock_prefix_def py_not_def dict_get_def re_sub_def format_s_def is_digit_def
  is_octdigit_def init_state_def rewrite_file_def

lemma command_map_eq:
  "command_map = [(''command'', ''ansible.builtin.command''), (''copy'', ''ansible.builtin.copy''),
     (''ansible.builtin.command'', ''ansible.builtin.command''),
     (''ansible.builtin.copy'', ''ansible.builtin.copy'')]"
  by (simp add: command_map_def add_fqcn_keys_def dict_of_pairs_def dict_values_def)

lemma foo_map_eq:
  "foo_map = [(''foo'', ''ns.coll.foo''), (''ns.coll.foo'', ''ns.coll.foo'')]"
  by (simp add: foo_map_def add_fqcn_keys_def dict_of_pairs_def dict_values_def)

lemma overlap_map_eq:
  "overlap_map = [(''bar'', ''ns.foo.bar''), (''foo'', ''ns.foo''),
     (''ns.foo.bar'', ''ns.foo.bar''), (''ns.foo'', ''ns.foo'')]"
  by (simp add: overlap_map_def add_fqcn_keys_def dict_of_pairs_def dict_values_def)

lemma plain_command_map: "plain_dict command_map"
  by (simp add: command_map_eq plain_dict_def plain_def regex_special_def)

lemma plain_foo_map: "plain_dict foo_map"
  by (simp add: foo_map_eq plain_dict_def plain_def regex_special_def)

lemma playbook_parsed:
  "parse_files command_map False ''.bak'' (\<lambda>p. playbook) [''/w/site.yml''] =
     Inr [(''/w/site.yml'', playbook,
           [''- hosts: all\<newline>'', ''  tasks:\<newline>'', ''  - ansible.builtin.command: echo hi\<newline>'',
            ''    - copy: src=a dest=b\<newline>'', ''  - ansible.builtin.copy: src=a dest=b\<newline>''],
           ''..*.*'')]"
  by (simp add: command_map_eq playbook_def eval_defs)

lemma space_key_map_eq:
  "space_key_map = [(''x'', ''ns.x''), ('' x'', ''ns.y''), (''ns.x'', ''ns.x''), (''ns.y'', ''ns.y'')]"
  by (simp add: space_key_map_def add_fqcn_keys_def dict_of_pairs_def dict_values_def)

lemma line_step_not_key:
  assumes "regex_match (fqcnregex st) (dict_keys d) line = Some (wh, m)"
    and "m \<notin> set (dict_keys d)"
  shows "line_step d st line = Inl KeyError \<or> line_step d st line = Inl IndexError"
proof -
  from assms(2) have "map_of d m = None"
    by (simp add: dict_keys_def map_of_eq_None_iff)
  then have "dict_get d m = Inl KeyError" by (simp add: dict_get_def)
  with assms(1) show ?thesis
    by (auto simp: line_step_def lock_prefix_def split: sum.splits option.splits)
qed

text \<open>A match of the pattern with the prefix is a match of the initial pattern with
  that prefix as its group \<^verbatim>\<open>white\<close>, when the keys begin like names.\<close>

lemma match_key_head:
  "match_key k t = Some r \<Longrightarrow> name_start k \<Longrightarrow> name_start t \<and> hd t = hd k"
  by (cases k; cases t) (auto simp: name_start_def split: if_splits)

lemma match_module_head:
  "match_module ks t = Some m \<Longrightarrow> list_all name_start ks \<Longrightarrow>
     \<exists>c cs. t = c # cs \<and> \<not> is_space c \<and> c \<noteq> CHR ''-''"
proof (induction ks)
  case Nil
  then show ?case by simp
next
  case (Cons k ks)
  show ?case
  proof (cases "match_key k t")
    case None
    with Cons show ?thesis by simp
  next
    case (Some r)
    from Cons.prems(2) have "name_start k" by simp
    from match_key_head [OF Some this] show ?thesis
      by (cases t) (auto simp: name_start_def)
  qed
qed

lemma nspace_Cons: "nspace (c # t) = (if is_space c then Suc (nspace t) else 0)"
  by (simp add: nspace_def)

lemma nspace_append_spaces:
  "list_all is_space b \<Longrightarrow> nspace (b @ t) = length b + nspace t"
  by (induction b) (auto simp: nspace_Cons)

lemma dash_not_space: "\<not> is_space CHR ''-''"
  by (simp add: is_space_def)

lemma splus_hit:
  assumes "match_module ks t = Some m" and "b \<noteq> []"
  shows "splus ks pre (b @ t) (length b) = Some (pre @ b, m)"
proof -
  from assms(2) obtain n where n: "length b = Suc n" by (cases b) auto
  then have "drop (Suc n) (b @ t) = t" and "take (Suc n) (b @ t) = b" by auto
  with assms(1) n show ?thesis by simp
qed

lemma sstar_spaces:
  assumes "match_module ks t = Some m" and "list_all name_start ks"
    and "w \<noteq> []" and "list_all is_space w"
  shows "sstar ks (w @ t) (nspace (w @ t)) = Some (w, m)"
proof -
  from match_module_head [OF assms(1,2)] obtain c cs
    where t: "t = c # cs" and c: "\<not> is_space c" "c \<noteq> CHR ''-''" by blast
  then have nt: "nspace t = 0" by (simp add: nspace_Cons)
  with assms(4) have n: "nspace (w @ t) = length w" by (simp add: nspace_append_spaces)
  from assms(3) obtain u s where w: "w = u @ [s]" by (cases w rule: rev_cases) auto
  with assms(4) have s: "is_space s" by simp
  then have sd: "s \<noteq> CHR ''-''" using dash_not_space by auto
  have first: "dash_opt ks w t = None"
    using t c nt by (simp add: dash_opt_def)
  have "nspace (s # t) = 1" using s nt by (simp add: nspace_Cons)
  moreover have "splus ks u ([s] @ t) (length [s]) = Some (u @ [s], m)"
    using assms(1) by (intro splus_hit) simp_all
  ultimately have second: "dash_opt ks u (s # t) = Some (w, m)"
    using sd w by (simp add: dash_opt_def)
  have len: "length w = Suc (length u)" using w by simp
  have "sstar ks (w @ t) (Suc (length u)) =
          (case dash_opt ks w t of Some r \<Rightarrow> Some r | None \<Rightarrow> sstar ks (w @ t) (length u))"
    using len by simp
  with first have step: "sstar ks (w @ t) (Suc (length u)) = sstar ks (w @ t) (length u)"
    by simp
  have "sstar ks (w @ t) (length u) = Some (w, m)"
  proof (cases "length u")
    case 0
    then have "u = []" by simp
    with second w show ?thesis by simp
  next
    case (Suc k)
    have "take (Suc k) (w @ t) = u" "drop (Suc k) (w @ t) = s # t"
      using Suc w by simp_all
    with second Suc show ?thesis by simp
  qed
  with step n len show ?thesis by simp
qed

lemma sstar_dash:
  assumes "match_module ks t = Some m"
    and "list_all is_space a" and "b \<noteq> []" and "list_all is_space b"
    and "list_all name_start ks"
  shows "sstar ks ((a @ CHR ''-'' # b) @ t) (nspace ((a @ CHR ''-'' # b) @ t)) = Some (a @ CHR ''-'' # b, m)"
proof -
  from match_module_head [OF assms(1,5)] obtain c cs
    where t: "t = c # cs" and c: "\<not> is_space c" by blast
  then have nt: "nspace t = 0" by (simp add: nspace_Cons)
  with assms(4) have nb: "nspace (b @ t) = length b" by (simp add: nspace_append_spaces)
  have "nspace (CHR ''-'' # b @ t) = 0" using dash_not_space by (simp add: nspace_Cons)
  with assms(2) have n: "nspace ((a @ CHR ''-'' # b) @ t) = length a"
    using nspace_append_spaces [of a "CHR ''-'' # b @ t"] by simp
  have "splus ks (a @ [CHR ''-'']) (b @ t) (length b) = Some ((a @ [CHR ''-'']) @ b, m)"
    using assms(1,3) by (rule splus_hit)
  with nb have d: "dash_opt ks a (CHR ''-'' # b @ t) = Some (a @ CHR ''-'' # b, m)"
    by (simp add: dash_opt_def)
  have "sstar ks ((a @ CHR ''-'' # b) @ t) (length a) = Some (a @ CHR ''-'' # b, m)"
  proof (cases "length a")
    case 0
    then have "a = []" by simp
    with d show ?thesis by simp
  next
    case (Suc k)
    have "take (Suc k) ((a @ CHR ''-'' # b) @ t) = a"
         "drop (Suc k) ((a @ CHR ''-'' # b) @ t) = CHR ''-'' # b @ t"
      using Suc by simp_all
    with d Suc show ?thesis by simp
  qed
  with n show ?thesis by simp
qed

lemma take_spaces:
  "j \<le> nspace t \<Longrightarrow> list_all is_space (take j t)"
proof (induction t arbitrary: j)
  case Nil
  then show ?case by simp
next
  case (Cons c t)
  then show ?case by (cases j) (auto simp: nspace_Cons split: if_splits)
qed

lemma splus_shape:
  "splus ks pre t n = Some (w, m) \<Longrightarrow> n \<le> nspace t \<Longrightarrow>
     \<exists>b. w = pre @ b \<and> b \<noteq> [] \<and> list_all is_space b"
proof (induction n)
  case 0
  then show ?case by simp
next
  case (Suc n)
  show ?case
  proof (cases "match_module ks (drop (Suc n) t)")
    case None
    with Suc show ?thesis by simp
  next
    case (Some md)
    with Suc.prems(1) have w: "w = pre @ take (Suc n) t" by simp
    from Suc.prems(2) have "list_all is_space (take (Suc n) t)" by (rule take_spaces)
    moreover from Suc.prems(2) have "t \<noteq> []" by (auto simp: nspace_def)
    then have "take (Suc n) t \<noteq> []" by simp
    ultimately show ?thesis using w by blast
  qed
qed

lemma dash_opt_shape:
  assumes "dash_opt ks pre t = Some (w, m)"
  shows "(\<exists>b. w = pre @ b \<and> b \<noteq> [] \<and> list_all is_space b)
       \<or> (\<exists>b. w = pre @ CHR ''-'' # b \<and> b \<noteq> [] \<and> list_all is_space b)"
proof (cases t)
  case Nil
  with assms show ?thesis by (simp add: dash_opt_def nspace_def)
next
  case (Cons c t')
  show ?thesis
  proof (cases "c = CHR ''-''")
    case False
    with assms Cons have "splus ks pre t (nspace t) = Some (w, m)"
      by (simp add: dash_opt_def)
    from splus_shape [OF this] show ?thesis by auto
  next
    case True
    show ?thesis
    proof (cases "splus ks (pre @ [c]) t' (nspace t')")
      case None
      with assms Cons True have "splus ks pre t (nspace t) = Some (w, m)"
        by (simp add: dash_opt_def)
      from splus_shape [OF this] show ?thesis by auto
    next
      case (Some r)
      with assms Cons True have "splus ks (pre @ [CHR ''-'']) t' (nspace t') = Some (w, m)"
        by (simp add: dash_opt_def)
      from splus_shape [OF this] show ?thesis by auto
    qed
  qed
qed

lemma sstar_shape:
  "sstar ks line n = Some (w, m) \<Longrightarrow> n \<le> nspace line \<Longrightarrow> white_shaped w"
proof (induction n)
  case 0
  from 0(1) have "dash_opt ks [] line = Some (w, m)" by simp
  from dash_opt_shape [OF this] show ?case
  proof
    assume "\<exists>b. w = [] @ b \<and> b \<noteq> [] \<and> list_all is_space b"
    then show ?thesis by (auto simp: white_shaped_def)
  next
    assume "\<exists>b. w = [] @ CHR ''-'' # b \<and> b \<noteq> [] \<and> list_all is_space b"
    then obtain b where "w = [] @ CHR ''-'' # b" "list_all is_space []" "b \<noteq> []" "list_all is_space b"
      by auto
    then show ?thesis unfolding white_shaped_def by blast
  qed
next
  case (Suc n)
  show ?case
  proof (cases "dash_opt ks (take (Suc n) line) (drop (Suc n) line)")
    case None
    with Suc show ?thesis by simp
  next
    case (Some r)
    with Suc.prems(1) have d: "dash_opt ks (take (Suc n) line) (drop (Suc n) line) = Some (w, m)"
      by simp
    from Suc.prems(2) have sp: "list_all is_space (take (Suc n) line)" by (rule take_spaces)
    from Suc.prems(2) have "line \<noteq> []" by (auto simp: nspace_def)
    then have ne: "take (Suc n) line \<noteq> []" by simp
    from dash_opt_shape [OF d] show ?thesis
    proof
      assume "\<exists>b. w = take (Suc n) line @ b \<and> b \<noteq> [] \<and> list_all is_space b"
      with sp show ?thesis by (auto simp: white_shaped_def)
    next
      assume "\<exists>b. w = take (Suc n) line @ CHR ''-'' # b \<and> b \<noteq> [] \<and> list_all is_space b"
      with sp show ?thesis unfolding white_shaped_def by blast
    qed
  qed
qed

lemma regex_match_Initial_shape:
  "regex_match Initial ks line = Some (Some w, m) \<Longrightarrow> white_shaped w"
  by (auto dest: sstar_shape)

lemma locked_match_is_initial_match:
  assumes "white_shaped w" and "list_all name_start (alternatives ks)"
    and "regex_match (Prefixed w) ks line = Some (wh, m)"
  shows "regex_match Initial ks line = Some (Some w, m)"
proof -
  from assms(3) obtain t where line: "line = w @ t"
    and mm: "match_module (alternatives ks) t = Some m"
    by (auto split: option.splits simp: strip_prefix_Some)
  from assms(1) have "sstar (alternatives ks) (w @ t) (nspace (w @ t)) = Some (w, m)"
    unfolding white_shaped_def
  proof (elim disjE conjE exE)
    assume "w \<noteq> []" "list_all is_space w"
    with mm assms(2) show ?thesis by (intro sstar_spaces)
  next
    fix a b
    assume "w = a @ CHR ''-'' # b" "list_all is_space a" "b \<noteq> []" "list_all is_space b"
    with mm assms(2) show ?thesis using sstar_dash by simp
  qed
  with line show ?thesis by simp
qed

lemma name_start_command_map: "list_all name_start (alternatives (dict_keys command_map))"
  by (simp add: command_map_eq dict_keys_def alternatives_def name_start_def is_space_def)

section \<open>The indentation lock\<close>

text \<open>
  C1, as the code has it. In every file that the run parses, let line \<open>i\<close> be the
  first that the initial pattern matches, with \<open>w\<close> the text of its group
  \<^verbatim>\<open>white\<close>. Every later line \<open>j\<close> of that file that does not begin with \<open>w\<close> is
  left as it is and reported with a dot, and a later line that is changed has the form
  \<open>w\<close>, module text, colon, rest. When every key begins like a name, a later line
  whose own leading prefix is not \<open>w\<close> (the initial pattern does not match it with
  \<open>w\<close> as its group \<^verbatim>\<open>white\<close>) is left as it is. The first match of a file decides
  alone: \<open>parse_files\<close> starts every file from \<open>init_state\<close>, whatever the files
  before it held.
\<close>

theorem indentation_lock:
  assumes "plain_dict d" and "parse_files d inplace backup lines_of fs = Inr rs"
    and "(f, ls, nls, symbs) \<in> set rs"
    and "\<forall>k<i. regex_match Initial (dict_keys d) (ls ! k) = None"
    and "regex_match Initial (dict_keys d) (ls ! i) = Some (Some w, m)"
    and "i < j" and "j < length ls"
  shows "(\<not> prefix w (ls ! j) \<longrightarrow> nls ! j = ls ! j \<and> symbs ! j = CHR ''.'')
       \<and> (nls ! j \<noteq> ls ! j \<longrightarrow> (\<exists>m' rest. ls ! j = w @ m' @ CHR '':'' # rest))
       \<and> (list_all name_start (alternatives (dict_keys d)) \<longrightarrow>
            (\<forall>m'. regex_match Initial (dict_keys d) (ls ! j) \<noteq> Some (Some w, m')) \<longrightarrow>
            nls ! j = ls ! j \<and> symbs ! j = CHR ''.'')"
proof -
  from parse_files_entry [OF assms(2,3)]
  have rf: "rewrite_lines d init_state ls = Inr (nls, symbs)"
    by (simp add: rewrite_file_def)
  note main = rewrite_lines_after_first_match [OF rf assms(4,5,6,7)]
  have one: "\<not> prefix w (ls ! j) \<longrightarrow> nls ! j = ls ! j \<and> symbs ! j = CHR ''.''"
  proof
    assume "\<not> prefix w (ls ! j)"
    then have "regex_match (Prefixed w) (dict_keys d) (ls ! j) = None"
      by (rule regex_match_Prefixed_None)
    then show "nls ! j = ls ! j \<and> symbs ! j = CHR ''.''"
      by (rule main)
  qed
  have two: "nls ! j \<noteq> ls ! j \<longrightarrow> (\<exists>m' rest. ls ! j = w @ m' @ CHR '':'' # rest)"
  proof
    assume neq: "nls ! j \<noteq> ls ! j"
    with main obtain wh m' where "regex_match (Prefixed w) (dict_keys d) (ls ! j) = Some (wh, m')"
      by (cases "regex_match (Prefixed w) (dict_keys d) (ls ! j)") auto
    from regex_match_Prefixed [OF this] show "\<exists>m' rest. ls ! j = w @ m' @ CHR '':'' # rest"
      by blast
  qed
  have three: "list_all name_start (alternatives (dict_keys d)) \<longrightarrow>
      (\<forall>m'. regex_match Initial (dict_keys d) (ls ! j) \<noteq> Some (Some w, m')) \<longrightarrow>
      nls ! j = ls ! j \<and> symbs ! j = CHR ''.''"
  proof (intro impI)
    assume keys: "list_all name_start (alternatives (dict_keys d))"
      and other: "\<forall>m'. regex_match Initial (dict_keys d) (ls ! j) \<noteq> Some (Some w, m')"
    from assms(5) have shaped: "white_shaped w" by (rule regex_match_Initial_shape)
    have "regex_match (Prefixed w) (dict_keys d) (ls ! j) = None"
    proof (cases "regex_match (Prefixed w) (dict_keys d) (ls ! j)")
      case None
      then show ?thesis .
    next
      case (Some r)
      obtain wh m' where "r = (wh, m')" by (cases r)
      with Some have "regex_match (Prefixed w) (dict_keys d) (ls ! j) = Some (wh, m')" by simp
      from locked_match_is_initial_match [OF shaped keys this] other show ?thesis by blast
    qed
    then show "nls ! j = ls ! j \<and> symbs ! j = CHR ''.''"
      by (rule main)
  qed
  from one two three show ?thesis by blast
qed

theorem indentation_lock_witness:
  "plain_dict command_map
   \<and> list_all name_start (alternatives (dict_keys command_map))
   \<and> parse_files command_map False ''.bak'' (\<lambda>p. playbook) [''/w/site.yml''] =
     Inr [(''/w/site.yml'', playbook,
           [''- hosts: all\<newline>'', ''  tasks:\<newline>'', ''  - ansible.builtin.command: echo hi\<newline>'',
            ''    - copy: src=a dest=b\<newline>'', ''  - ansible.builtin.copy: src=a dest=b\<newline>''],
           ''..*.*'')]
   \<and> regex_match Initial (dict_keys command_map) (playbook ! 2) = Some (Some ''  - '', ''command'')
   \<and> \<not> prefix ''  - '' (playbook ! 3)
   \<and> regex_match Initial (dict_keys command_map) (playbook ! 3) = Some (Some ''    - '', ''copy'')"
proof -
  let ?nls = "[''- hosts: all\<newline>'', ''  tasks:\<newline>'', ''  - ansible.builtin.command: echo hi\<newline>'',
            ''    - copy: src=a dest=b\<newline>'', ''  - ansible.builtin.copy: src=a dest=b\<newline>'']"
  let ?rs = "[(''/w/site.yml'', playbook, ?nls, ''..*.*'')]"
  have h1: "parse_files command_map False ''.bak'' (\<lambda>p. playbook) [''/w/site.yml''] = Inr ?rs"
    by (rule playbook_parsed)
  have h2: "(''/w/site.yml'', playbook, ?nls, ''..*.*'') \<in> set ?rs" by simp
  have h3: "\<forall>k<2. regex_match Initial (dict_keys command_map) (playbook ! k) = None"
  proof (intro allI impI)
    fix k :: nat
    assume "k < 2"
    then consider "k = 0" | "k = 1" by linarith
    then show "regex_match Initial (dict_keys command_map) (playbook ! k) = None"
      by cases (simp_all add: command_map_eq playbook_def eval_defs)
  qed
  have h4: "regex_match Initial (dict_keys command_map) (playbook ! 2) = Some (Some ''  - '', ''command'')"
    by (simp add: command_map_eq playbook_def eval_defs)
  have h5: "(2::nat) < 3" by simp
  have h6: "3 < length playbook" by (simp add: playbook_def)
  have np: "\<not> prefix ''  - '' (playbook ! 3)" by (simp add: playbook_def)
  have m3: "regex_match Initial (dict_keys command_map) (playbook ! 3) = Some (Some ''    - '', ''copy'')"
    by (simp add: command_map_eq playbook_def eval_defs)
  from indentation_lock [OF plain_command_map h1 h2 h3 h4 h5 h6] np
  have "?nls ! 3 = playbook ! 3" by simp
  with plain_command_map name_start_command_map h1 h4 np m3 show ?thesis by simp
qed

text \<open>
  Without the condition on the keys the last part fails. With the keys \<^verbatim>\<open>x\<close> and
  \<^verbatim>\<open> x\<close> (a space before the letter) the first line locks two spaces; the second
  line is indented by three, which is its own leading prefix under the initial
  pattern, and yet the pattern with the prefix matches it, with the key that begins
  with a space, and it is rewritten.
\<close>

theorem indentation_lock_counterexample:
  "plain_dict space_key_map
   \<and> regex_match Initial (dict_keys space_key_map) ''  x: 1\<newline>'' = Some (Some ''  '', ''x'')
   \<and> regex_match Initial (dict_keys space_key_map) ''   x: 2\<newline>'' = Some (Some ''   '', ''x'')
   \<and> regex_match (Prefixed ''  '') (dict_keys space_key_map) ''   x: 2\<newline>'' = Some (None, '' x'')
   \<and> rewrite_file space_key_map [''  x: 1\<newline>'', ''   x: 2\<newline>''] =
       Inr ([''  ns.x: 1\<newline>'', ''  ns.y: 2\<newline>''], ''**'')"
  by (simp add: space_key_map_eq eval_defs plain_dict_def plain_def regex_special_def)

section \<open>The substitution on a matching line\<close>

text \<open>
  What the substitution does when the text of the module group is a key: the line is
  the prefix, the module text, a colon and a rest, and, unless the mapped value begins
  with a digit, the new line is the prefix, the value, the colon and the same rest.
\<close>

lemma splus_Some:
  "splus ks pre t n = Some (w, m) \<Longrightarrow> \<exists>rest. pre @ t = w @ m @ CHR '':'' # rest"
proof (induction n)
  case 0
  then show ?case by simp
next
  case (Suc n)
  show ?case
  proof (cases "match_module ks (drop (Suc n) t)")
    case None
    with Suc show ?thesis by simp
  next
    case (Some md)
    with Suc.prems have w: "w = pre @ take (Suc n) t" and m: "m = md" by simp_all
    from match_module_Some [OF Some] obtain rest where "drop (Suc n) t = md @ CHR '':'' # rest"
      by blast
    then have "t = take (Suc n) t @ md @ CHR '':'' # rest"
      by (metis append_take_drop_id)
    with w m show ?thesis by (metis append.assoc)
  qed
qed

lemma dash_opt_Some:
  "dash_opt ks pre t = Some (w, m) \<Longrightarrow> \<exists>rest. pre @ t = w @ m @ CHR '':'' # rest"
  by (cases t) (auto simp: dash_opt_def split: if_splits option.splits dest: splus_Some)

lemma sstar_Some:
  "sstar ks line n = Some (w, m) \<Longrightarrow> \<exists>rest. line = w @ m @ CHR '':'' # rest"
proof (induction n)
  case 0
  then show ?case by (auto dest: dash_opt_Some)
next
  case (Suc n)
  show ?case
  proof (cases "dash_opt ks (take (Suc n) line) (drop (Suc n) line)")
    case None
    with Suc show ?thesis by simp
  next
    case (Some r)
    with Suc.prems have "dash_opt ks (take (Suc n) line) (drop (Suc n) line) = Some (w, m)"
      by simp
    from dash_opt_Some [OF this] show ?thesis by simp
  qed
qed

lemma regex_match_Initial:
  "regex_match Initial ks line = Some (wh, m) \<Longrightarrow>
     \<exists>w rest. wh = Some w \<and> line = w @ m @ CHR '':'' # rest"
  by (auto dest: sstar_Some)

lemma match_key_self: "match_key m (m @ r) = Some r"
  by (induction m) auto

lemma re_sub_replaces:
  assumes "expand_template w (v @ '':'') = Inr (w @ v @ '':'')"
  shows "re_sub w m v (w @ m @ CHR '':'' # rest) = Inr (w @ v @ CHR '':'' # rest)"
proof -
  have "strip_prefix w (w @ m @ CHR '':'' # rest) = Some (m @ CHR '':'' # rest)"
    by (simp add: strip_prefix_Some)
  moreover have "match_key m (m @ CHR '':'' # rest) = Some (CHR '':'' # rest)"
    by (rule match_key_self)
  ultimately show ?thesis using assms by (simp add: re_sub_def)
qed

lemma expand_template_no_digit:
  assumes "v = [] \<or> \<not> is_digit (hd v)"
  shows "expand_template w (v @ '':'') = Inr (w @ v @ '':'')"
proof (cases v)
  case Nil
  then show ?thesis by (simp add: is_digit_def)
next
  case (Cons c cs)
  with assms have "\<not> is_digit c" by simp
  with Cons show ?thesis by (cases cs) simp_all
qed

lemma line_step_rewrites_key:
  assumes "st = init_state \<or> st = \<lparr>startingwhitespaces = Some w0, fqcnregex = Prefixed w0\<rparr>"
    and "regex_match (fqcnregex st) (dict_keys d) line = Some (wh, m)"
    and "line_step d st line = Inr (nl, sy, st')"
  shows "\<exists>w v rest. line = w @ m @ CHR '':'' # rest \<and> map_of d m = Some v
           \<and> (v = [] \<or> \<not> is_digit (hd v) \<longrightarrow> nl = w @ v @ CHR '':'' # rest)
           \<and> startingwhitespaces st' = Some w"
proof -
  from assms(2,3) obtain v where v: "map_of d m = Some v"
    by (auto simp: line_step_def dict_get_def split: sum.splits option.splits)
  from assms(1) show ?thesis
  proof
    assume st: "st = init_state"
    with assms(2) have "regex_match Initial (dict_keys d) line = Some (wh, m)"
      by (simp add: init_state_def)
    from regex_match_Initial [OF this]
    obtain w rest where wh: "wh = Some w" and line: "line = w @ m @ CHR '':'' # rest"
      by blast
    from assms(2,3) st wh v
    have sub: "re_sub w m v line = Inr nl" and st': "startingwhitespaces st' = Some w"
      by (auto simp: line_step_def lock_prefix_def py_not_def init_state_def dict_get_def
            format_s_def split: sum.splits)
    have "v = [] \<or> \<not> is_digit (hd v) \<longrightarrow> nl = w @ v @ CHR '':'' # rest"
      using sub line re_sub_replaces [OF expand_template_no_digit] by auto
    with line v st' show ?thesis by blast
  next
    assume st: "st = \<lparr>startingwhitespaces = Some w0, fqcnregex = Prefixed w0\<rparr>"
    with assms(2) have "regex_match (Prefixed w0) (dict_keys d) line = Some (wh, m)"
      by simp
    from regex_match_Prefixed [OF this]
    obtain rest where line: "line = w0 @ m @ CHR '':'' # rest"
      by blast
    from assms(2,3) st v
    have sub: "re_sub w0 m v line = Inr nl" and st': "startingwhitespaces st' = Some w0"
      by (auto simp: line_step_def lock_prefix_def py_not_def dict_get_def
            format_s_def split: sum.splits if_splits)
    have "v = [] \<or> \<not> is_digit (hd v) \<longrightarrow> nl = w0 @ v @ CHR '':'' # rest"
      using sub line re_sub_replaces [OF expand_template_no_digit] by auto
    with line v st' show ?thesis by blast
  qed
qed

text \<open>
  C2. A line that matches is to come out with its module token replaced by the mapped
  name. The keys stand in the pattern unescaped, so with the key
  \<^verbatim>\<open>ansible.builtin.command\<close> the line \<^verbatim>\<open>  - ansible_builtin.command: echo hi\<close>
  matches; the text of the group is not a key, and the lookup of line 237 raises
  \<^verbatim>\<open>KeyError\<close> in either state of the loop. The line of the specification,
  \<^verbatim>\<open>  - command: echo hi\<close>, is rewritten as it says.
\<close>

theorem unescaped_key_raises_KeyError:
  "regex_match (Prefixed ''  - '') (dict_keys command_map) ''  - ansible_builtin.command: echo hi\<newline>'' =
     Some (None, ''ansible_builtin.command'')
   \<and> line_step command_map \<lparr>startingwhitespaces = Some ''  - '', fqcnregex = Prefixed ''  - ''\<rparr>
       ''  - ansible_builtin.command: echo hi\<newline>'' = Inl KeyError
   \<and> line_step command_map init_state ''  - ansible_builtin.command: echo hi\<newline>'' = Inl KeyError
   \<and> line_step command_map \<lparr>startingwhitespaces = Some ''  - '', fqcnregex = Prefixed ''  - ''\<rparr>
       ''  - command: echo hi'' =
     Inr (''  - ansible.builtin.command: echo hi'', CHR ''*'',
          \<lparr>startingwhitespaces = Some ''  - '', fqcnregex = Prefixed ''  - ''\<rparr>)"
  by (simp add: command_map_eq eval_defs)

section \<open>A second run\<close>

text \<open>
  C3. A second run over the output of a first is to change nothing. With the keys
  \<^verbatim>\<open>bar, foo, ns.foo.bar, ns.foo\<close> in this order the first run rewrites
  \<^verbatim>\<open>  foo:bar: x\<close> to \<^verbatim>\<open>  ns.foo:bar: x\<close>; in the second run the earlier
  alternative \<^verbatim>\<open>ns.foo.bar\<close> matches \<^verbatim>\<open>ns.foo:bar\<close>, its dot taking the colon,
  and the lookup raises \<^verbatim>\<open>KeyError\<close>.
\<close>

theorem second_run_raises_KeyError:
  "rewrite_file overlap_map [''  foo:bar: x\<newline>''] = Inr ([''  ns.foo:bar: x\<newline>''], ''*'')
   \<and> rewrite_file overlap_map [''  ns.foo:bar: x\<newline>''] = Inl KeyError"
  by (simp add: overlap_map_eq eval_defs)

section \<open>The progress symbols\<close>

text \<open>
  C6, as the code has it. A line is reported with a star exactly when it matched and
  the value mapped to its module text differs from that text; every other line, one
  that did not match as well as one whose module text is mapped to itself, is reported
  with a dot.
\<close>

theorem progress_symbol:
  assumes "plain_dict d" and "line_step d st line = Inr (nl, sy, st')"
  shows "(sy = CHR ''*'' \<longleftrightarrow>
            (\<exists>wh m v. regex_match (fqcnregex st) (dict_keys d) line = Some (wh, m)
                      \<and> dict_get d m = Inr v \<and> m \<noteq> v))
       \<and> (sy \<noteq> CHR ''*'' \<longrightarrow> sy = CHR ''.'')"
proof -
  show ?thesis
  proof (cases "regex_match (fqcnregex st) (dict_keys d) line")
    case None
    with assms(2) show ?thesis by (auto simp: line_step_def)
  next
    case (Some r)
    obtain wh m where r: "r = (wh, m)" by (cases r)
    from assms(2) Some r obtain v where v: "dict_get d m = Inr v"
      by (auto simp: line_step_def split: sum.splits)
    from assms(2) Some r v have "sy = (if m = v then CHR ''.'' else CHR ''*'')"
      by (auto simp: line_step_def split: sum.splits)
    with Some r v show ?thesis by auto
  qed
qed

theorem progress_symbol_witness:
  "plain_dict foo_map
   \<and> line_step foo_map init_state ''- foo: x\<newline>'' =
     Inr (''- ns.coll.foo: x\<newline>'', CHR ''*'',
          \<lparr>startingwhitespaces = Some ''- '', fqcnregex = Prefixed ''- ''\<rparr>)
   \<and> regex_match (fqcnregex init_state) (dict_keys foo_map) ''- foo: x\<newline>'' = Some (Some ''- '', ''foo'')
   \<and> dict_get foo_map ''foo'' = Inr ''ns.coll.foo''"
proof -
  have h: "line_step foo_map init_state ''- foo: x\<newline>'' =
     Inr (''- ns.coll.foo: x\<newline>'', CHR ''*'',
          \<lparr>startingwhitespaces = Some ''- '', fqcnregex = Prefixed ''- ''\<rparr>)"
    by (simp add: foo_map_eq eval_defs)
  have m: "regex_match (fqcnregex init_state) (dict_keys foo_map) ''- foo: x\<newline>'' = Some (Some ''- '', ''foo'')"
    by (simp add: foo_map_eq eval_defs)
  have g: "dict_get foo_map ''foo'' = Inr ''ns.coll.foo''"
    by (simp add: foo_map_eq eval_defs)
  from progress_symbol [OF plain_foo_map h]
  have "\<exists>wh m v. regex_match (fqcnregex init_state) (dict_keys foo_map) ''- foo: x\<newline>'' = Some (wh, m)
                      \<and> dict_get foo_map m = Inr v \<and> m \<noteq> v" by simp
  with plain_foo_map h m g show ?thesis by simp
qed

text \<open>An already qualified line gets the dot of a line that did not match, not the
  star of a rewritten line.\<close>

theorem progress_symbol_counterexample:
  "line_step foo_map init_state ''- ns.coll.foo: x\<newline>'' =
     Inr (''- ns.coll.foo: x\<newline>'', CHR ''.'',
          \<lparr>startingwhitespaces = Some ''- '', fqcnregex = Prefixed ''- ''\<rparr>)
   \<and> line_step foo_map init_state ''# a comment\<newline>'' =
     Inr (''# a comment\<newline>'', CHR ''.'', init_state)
   \<and> line_step foo_map init_state ''- foo: x\<newline>'' =
     Inr (''- ns.coll.foo: x\<newline>'', CHR ''*'',
          \<lparr>startingwhitespaces = Some ''- '', fqcnregex = Prefixed ''- ''\<rparr>)"
  by (simp add: foo_map_eq eval_defs)

section \<open>Unescaped dots in the keys\<close>

text \<open>
  C10, as the code has it. The dot of a key matches any character: with the key
  \<^verbatim>\<open>ns.coll.foo\<close> the line \<^verbatim>\<open>- nsXcoll.foo: bar\<close>, whose token is not a key and
  differs from the key at a dot only, is matched by the initial pattern and by the
  pattern with the prefix, and the group \<^verbatim>\<open>module\<close> holds the token of the line.
\<close>

theorem unescaped_dot_matches_any_character:
  "''ns.coll.foo'' \<in> set (dict_keys foo_map)
   \<and> ''nsXcoll.foo'' \<notin> set (dict_keys foo_map)
   \<and> list_all2 (\<lambda>p c. p = c \<or> p = CHR ''.'') ''ns.coll.foo'' ''nsXcoll.foo''
   \<and> regex_match Initial (dict_keys foo_map) ''- nsXcoll.foo: bar\<newline>'' = Some (Some ''- '', ''nsXcoll.foo'')
   \<and> regex_match (Prefixed ''- '') (dict_keys foo_map) ''- nsXcoll.foo: bar\<newline>'' = Some (None, ''nsXcoll.foo'')"
  by (simp add: foo_map_eq eval_defs)

text \<open>Such a line is not rewritten: its token is looked up in the dict, and no line
  step returns a line when the text of the group is not a key.\<close>

theorem dot_match_counterexample:
  "regex_match Initial (dict_keys foo_map) ''- nsXcoll.foo: bar\<newline>'' = Some (Some ''- '', ''nsXcoll.foo'')
   \<and> line_step foo_map init_state ''- nsXcoll.foo: bar\<newline>'' = Inl KeyError
   \<and> \<not> (\<exists>d st line wh m r. regex_match (fqcnregex st) (dict_keys d) line = Some (wh, m)
            \<and> m \<notin> set (dict_keys d) \<and> line_step d st line = Inr r)"
proof -
  have "regex_match Initial (dict_keys foo_map) ''- nsXcoll.foo: bar\<newline>'' = Some (Some ''- '', ''nsXcoll.foo'')"
    by (simp add: foo_map_eq eval_defs)
  moreover have "line_step foo_map init_state ''- nsXcoll.foo: bar\<newline>'' = Inl KeyError"
    by (simp add: foo_map_eq eval_defs)
  moreover have "\<not> (\<exists>d st line wh m r. regex_match (fqcnregex st) (dict_keys d) line = Some (wh, m)
            \<and> m \<notin> set (dict_keys d) \<and> line_step d st line = Inr r)"
    using line_step_not_key by fastforce
  ultimately show ?thesis by simp
qed

section \<open>The self-mapping of the values\<close>

lemma map_of_dict_set: "map_of (dict_set k v d) = (map_of d)(k \<mapsto> v)"
  by (induction d) (auto simp: fun_eq_iff)

lemma set_dict_set: "set (dict_set k v d) \<subseteq> insert (k, v) (set d)"
  by (induction d) (auto split: if_splits)

lemma map_of_self_keys:
  "map_of (foldl (\<lambda>acc fqcn. dict_set fqcn fqcn acc) d vs) k =
     (if k \<in> set vs then Some k else map_of d k)"
  by (induction vs arbitrary: d) (auto simp: map_of_dict_set)

lemma set_self_keys:
  "set (foldl (\<lambda>acc fqcn. dict_set fqcn fqcn acc) d vs) \<subseteq> set d \<union> (\<lambda>x. (x, x)) ` set vs"
proof (induction vs arbitrary: d)
  case Nil
  then show ?case by simp
next
  case (Cons v vs)
  have "set (foldl (\<lambda>acc fqcn. dict_set fqcn fqcn acc) (dict_set v v d) vs)
          \<subseteq> set (dict_set v v d) \<union> (\<lambda>x. (x, x)) ` set vs"
    by (rule Cons.IH)
  also have "\<dots> \<subseteq> insert (v, v) (set d) \<union> (\<lambda>x. (x, x)) ` set vs"
    using set_dict_set [of v v d] by blast
  finally show ?case by auto
qed

lemma add_fqcn_keys_self:
  assumes "v \<in> set (dict_values (add_fqcn_keys d))"
  shows "dict_get (add_fqcn_keys d) v = Inr v"
proof -
  from assms obtain k where "(k, v) \<in> set (add_fqcn_keys d)"
    by (auto simp: dict_values_def)
  with set_self_keys [of d "dict_values d"]
  have "(k, v) \<in> set d \<or> v \<in> set (dict_values d)"
    by (auto simp: add_fqcn_keys_def)
  then have "v \<in> set (dict_values d)"
    by (force simp: dict_values_def)
  then show ?thesis
    by (simp add: dict_get_def add_fqcn_keys_def map_of_self_keys)
qed

lemma build_map_result:
  assumes "build_map a e = Inr (d, written)"
  shows "\<exists>d0. d = add_fqcn_keys d0"
  using assms
  by (auto simp: build_map_def Let_def split: option.splits if_splits sum.splits)

lemma demo_build_loaded: "build_map demo_args demo_env = Inr (foo_map, None)"
  by (simp add: build_map_def demo_args_def demo_env_def foo_map_def)

lemma demo_build_generated:
  "build_map (demo_args\<lparr>fqcnmapfile := ''/w/new.yml''\<rparr>) demo_env =
     Inr (foo_map, Some [(''foo'', ''ns.coll.foo'')])"
  by (simp add: build_map_def demo_args_def demo_env_def foo_map_eq demo_doc_def gen_module_def
        last_segment_def add_fqcn_keys_def dict_values_def)

text \<open>
  C4, as the code has it. After \<open>build_map\<close>, whether the map file was loaded or
  the map was generated, every value of the dict is a key of the dict, mapped to
  itself. A map file with the pair \<^verbatim>\<open>foo: ns.coll.foo\<close> gives the dict with
  \<^verbatim>\<open>foo\<close> and \<^verbatim>\<open>ns.coll.foo\<close> both mapped to \<^verbatim>\<open>ns.coll.foo\<close>, and the line
  \<^verbatim>\<open>- ns.coll.foo:\<close> is matched by the initial pattern, with \<^verbatim>\<open>ns.coll.foo\<close> as
  its module text, and comes out as it went in. It is reported with a dot, as a line
  that the pattern does not match is.
\<close>

theorem self_mapping:
  "(build_map a e = Inr (d, written) \<longrightarrow> v \<in> set (dict_values d) \<longrightarrow> dict_get d v = Inr v)
   \<and> add_fqcn_keys (dict_of_pairs [(''foo'', ''ns.coll.foo'')]) =
       [(''foo'', ''ns.coll.foo''), (''ns.coll.foo'', ''ns.coll.foo'')]
   \<and> regex_match Initial (dict_keys foo_map) ''- ns.coll.foo:'' = Some (Some ''- '', ''ns.coll.foo'')
   \<and> line_step foo_map init_state ''- ns.coll.foo:'' =
       Inr (''- ns.coll.foo:'', CHR ''.'',
            \<lparr>startingwhitespaces = Some ''- '', fqcnregex = Prefixed ''- ''\<rparr>)
   \<and> regex_match Initial (dict_keys foo_map) ''- name: x'' = None
   \<and> line_step foo_map init_state ''- name: x'' = Inr (''- name: x'', CHR ''.'', init_state)"
proof -
  have general: "build_map a e = Inr (d, written) \<longrightarrow> v \<in> set (dict_values d)
      \<longrightarrow> dict_get d v = Inr v"
  proof (intro impI)
    assume "build_map a e = Inr (d, written)" and v: "v \<in> set (dict_values d)"
    then obtain d0 where "d = add_fqcn_keys d0" using build_map_result by blast
    with v show "dict_get d v = Inr v" by (simp add: add_fqcn_keys_self)
  qed
  have loaded: "add_fqcn_keys (dict_of_pairs [(''foo'', ''ns.coll.foo'')]) =
       [(''foo'', ''ns.coll.foo''), (''ns.coll.foo'', ''ns.coll.foo'')]"
    using foo_map_eq by (simp add: foo_map_def)
  have matched: "regex_match Initial (dict_keys foo_map) ''- ns.coll.foo:'' = Some (Some ''- '', ''ns.coll.foo'')"
    by (simp add: foo_map_eq eval_defs)
  have step: "line_step foo_map init_state ''- ns.coll.foo:'' =
       Inr (''- ns.coll.foo:'', CHR ''.'',
            \<lparr>startingwhitespaces = Some ''- '', fqcnregex = Prefixed ''- ''\<rparr>)"
    by (simp add: foo_map_eq eval_defs)
  have other: "regex_match Initial (dict_keys foo_map) ''- name: x'' = None"
    "line_step foo_map init_state ''- name: x'' = Inr (''- name: x'', CHR ''.'', init_state)"
    by (simp_all add: foo_map_eq eval_defs)
  from general loaded matched step other show ?thesis by blast
qed

theorem self_mapping_witness:
  "build_map demo_args demo_env = Inr (foo_map, None)
   \<and> build_map (demo_args\<lparr>fqcnmapfile := ''/w/new.yml''\<rparr>) demo_env =
       Inr (foo_map, Some [(''foo'', ''ns.coll.foo'')])
   \<and> ''ns.coll.foo'' \<in> set (dict_values foo_map)
   \<and> dict_get foo_map ''ns.coll.foo'' = Inr ''ns.coll.foo''
   \<and> dict_get foo_map ''foo'' = Inr ''ns.coll.foo''"
proof -
  have v: "''ns.coll.foo'' \<in> set (dict_values foo_map)"
    by (simp add: foo_map_eq dict_values_def)
  from self_mapping [of demo_args demo_env foo_map None "''ns.coll.foo''"] demo_build_loaded v
  have "dict_get foo_map ''ns.coll.foo'' = Inr ''ns.coll.foo''" by blast
  moreover have "dict_get foo_map ''foo'' = Inr ''ns.coll.foo''"
    by (simp add: foo_map_eq dict_get_def)
  ultimately show ?thesis using demo_build_loaded demo_build_generated v by simp
qed

text \<open>The report does not count the matched line: what is printed for it, and the
  text that goes out, are what a line without a match gets; a rewritten line gets the
  star.\<close>

theorem self_mapped_line_report_counterexample:
  "regex_match Initial (dict_keys foo_map) ''- ns.coll.foo:'' = Some (Some ''- '', ''ns.coll.foo'')
   \<and> fst (snd (projr (line_step foo_map init_state ''- ns.coll.foo:''))) = CHR ''.''
   \<and> regex_match Initial (dict_keys foo_map) ''- name: x'' = None
   \<and> fst (snd (projr (line_step foo_map init_state ''- name: x''))) = CHR ''.''
   \<and> fst (snd (projr (line_step foo_map init_state ''- foo:''))) = CHR ''*''"
  by (simp add: foo_map_eq eval_defs)

section \<open>The optional config file\<close>

lemma read_config_absent:
  assumes "config a = None \<or> (\<exists>p. config a = Some p \<and> config_yaml e p = None)"
  shows "read_config a e = None"
  using assms by (auto simp: read_config_def)

text \<open>
  C5. A run without a config file is to go on with no further exclusion. When no
  config path is given, or the given path does not exist, the name \<^verbatim>\<open>_config\<close> is
  never bound (line 186 assigns \<^verbatim>\<open>config\<close>), and line 193 raises \<^verbatim>\<open>NameError\<close>:
  every run that got its map ends there, before it looks for files.
\<close>

theorem absent_config_raises_NameError:
  assumes "config a = None \<or> (\<exists>p. config a = Some p \<and> config_yaml e p = None)"
    and "build_map a e = Inr r"
  shows "main a e = Inl NameError"
proof -
  from assms(1) have "read_config a e = None" by (rule read_config_absent)
  then have "config_exclude_paths e (read_config a e) (build_exclude_paths a) = Inl NameError"
    by (simp add: config_exclude_paths_def)
  with assms(2) show ?thesis
    by (cases r) (simp add: main_def)
qed

theorem absent_config_raises_NameError_witness:
  "build_map (demo_args\<lparr>config := None\<rparr>) demo_env = Inr (foo_map, None)
   \<and> main (demo_args\<lparr>config := None\<rparr>) demo_env = Inl NameError
   \<and> config_yaml demo_env ''/w/missing.yml'' = None
   \<and> main (demo_args\<lparr>config := Some ''/w/missing.yml''\<rparr>) demo_env = Inl NameError"
proof -
  have b1: "build_map (demo_args\<lparr>config := None\<rparr>) demo_env = Inr (foo_map, None)"
    using demo_build_loaded by (simp add: build_map_def)
  have b2: "build_map (demo_args\<lparr>config := Some ''/w/missing.yml''\<rparr>) demo_env = Inr (foo_map, None)"
    using demo_build_loaded by (simp add: build_map_def)
  have c1: "config (demo_args\<lparr>config := None\<rparr>) = None
      \<or> (\<exists>p. config (demo_args\<lparr>config := None\<rparr>) = Some p \<and> config_yaml demo_env p = None)"
    by simp
  have m: "config_yaml demo_env ''/w/missing.yml'' = None" by (simp add: demo_env_def)
  then have c2: "config (demo_args\<lparr>config := Some ''/w/missing.yml''\<rparr>) = None
      \<or> (\<exists>p. config (demo_args\<lparr>config := Some ''/w/missing.yml''\<rparr>) = Some p
              \<and> config_yaml demo_env p = None)"
    by simp
  from absent_config_raises_NameError [OF c1 b1] absent_config_raises_NameError [OF c2 b2] b1 m
  show ?thesis by simp
qed

section \<open>Failures of the external queries\<close>

text \<open>
  C7. A module whose detail query fails is to be skipped. A query ended by a signal
  has a negative return code, which the test \<^verbatim>\<open>returncode > 0\<close> of line 147 lets
  through: its output is parsed, and with nothing on it \<^verbatim>\<open>json.loads\<close> raises and
  the generation ends. A query with exit status 1 and an answer without
  \<^verbatim>\<open>collection\<close> are skipped, and the next module is added.
\<close>

theorem killed_detail_query_aborts:
  "returncode (killed_doc ''ping'') = - 9
   \<and> gen_modules killed_doc [''ping'', ''copy''] [] = Inl JSONDecodeError
   \<and> main (demo_args\<lparr>updatefqcnmapfile := True\<rparr>)
        (demo_env\<lparr>ansible_doc_list := \<lparr>returncode = 0, stdout = Some [''ping'', ''copy'']\<rparr>,
                   ansible_doc := killed_doc\<rparr>) = Inl JSONDecodeError
   \<and> gen_modules failed_doc [''ping'', ''copy''] [] = Inr [(''copy'', ''ns.coll.copy'')]
   \<and> gen_modules incomplete_doc [''ping'', ''copy''] [] = Inr [(''copy'', ''ns.coll.copy'')]"
  by (simp add: killed_doc_def failed_doc_def incomplete_doc_def demo_doc_def gen_module_def
        last_segment_def main_def build_map_def demo_args_def demo_env_def dict_of_pairs_def)

text \<open>
  C8. When the map is generated (there is no map file, or the update flag is set) and
  the listing ends with a return code other than 0, building the map raises
  \<^verbatim>\<open>CalledProcessError\<close> and so does the run: it has no dict, writes no map file
  and parses no file.
\<close>

theorem listing_failure_is_fatal:
  assumes "fqcn_yaml e (fqcnmapfile a) = None \<or> updatefqcnmapfile a"
    and "returncode (ansible_doc_list e) \<noteq> 0"
  shows "build_map a e = Inl CalledProcessError \<and> main a e = Inl CalledProcessError"
proof -
  from assms have "build_map a e = Inl CalledProcessError"
    by (auto simp: build_map_def split: option.splits)
  then show ?thesis by (simp add: main_def)
qed

theorem listing_failure_is_fatal_witness:
  "fqcn_yaml demo_env (fqcnmapfile (demo_args\<lparr>fqcnmapfile := ''/w/new.yml''\<rparr>)) = None
   \<and> returncode (ansible_doc_list (demo_env\<lparr>ansible_doc_list := \<lparr>returncode = 2, stdout = None\<rparr>\<rparr>)) = 2
   \<and> main (demo_args\<lparr>fqcnmapfile := ''/w/new.yml''\<rparr>)
        (demo_env\<lparr>ansible_doc_list := \<lparr>returncode = 2, stdout = None\<rparr>\<rparr>) = Inl CalledProcessError
   \<and> main (demo_args\<lparr>updatefqcnmapfile := True\<rparr>)
        (demo_env\<lparr>ansible_doc_list := \<lparr>returncode = - 15, stdout = None\<rparr>\<rparr>) = Inl CalledProcessError"
proof -
  let ?e = "demo_env\<lparr>ansible_doc_list := \<lparr>returncode = 2, stdout = None\<rparr>\<rparr>"
  let ?e' = "demo_env\<lparr>ansible_doc_list := \<lparr>returncode = - 15, stdout = None\<rparr>\<rparr>"
  let ?a = "demo_args\<lparr>fqcnmapfile := ''/w/new.yml''\<rparr>"
  let ?a' = "demo_args\<lparr>updatefqcnmapfile := True\<rparr>"
  have h1: "fqcn_yaml ?e (fqcnmapfile ?a) = None \<or> updatefqcnmapfile ?a"
    by (simp add: demo_env_def)
  have h2: "returncode (ansible_doc_list ?e) \<noteq> 0" by simp
  have h1': "fqcn_yaml ?e' (fqcnmapfile ?a') = None \<or> updatefqcnmapfile ?a'" by simp
  have h2': "returncode (ansible_doc_list ?e') \<noteq> 0" by simp
  from listing_failure_is_fatal [OF h1 h2] listing_failure_is_fatal [OF h1' h2']
  show ?thesis by (simp add: demo_env_def)
qed

section \<open>The map file is never parsed\<close>

lemma isexcluded_mapfile:
  assumes "m \<in> set eps" and "prefix (abspath e m) (abspath e f)"
  shows "isexcluded e f eps \<noteq> Inr False"
  using assms
  by (induction eps) (auto split: sum.splits)

lemma scan_extensions_not_excluded:
  "scan_extensions e eps dirpath name exts = Inr fs \<Longrightarrow> f \<in> set fs \<Longrightarrow>
     isexcluded e f eps = Inr False"
  by (induction exts arbitrary: fs) (auto simp: Let_def split: if_splits sum.splits)

lemma scan_names_not_excluded:
  "scan_names e eps exts dirpath names = Inr fs \<Longrightarrow> f \<in> set fs \<Longrightarrow>
     isexcluded e f eps = Inr False"
proof (induction names arbitrary: fs)
  case Nil
  then show ?case by simp
next
  case (Cons name names)
  from Cons.prems(1) obtain xs ys
    where xs: "scan_extensions e eps dirpath name exts = Inr xs"
      and ys: "scan_names e eps exts dirpath names = Inr ys"
      and fs: "fs = xs @ ys"
    by (auto split: sum.splits)
  from Cons.prems(2) fs consider "f \<in> set xs" | "f \<in> set ys" by auto
  then show ?case
  proof cases
    case 1
    with xs show ?thesis by (rule scan_extensions_not_excluded)
  next
    case 2
    with ys show ?thesis by (rule Cons.IH)
  qed
qed

lemma scan_dirs_not_excluded:
  "scan_dirs e eps exts ds = Inr fs \<Longrightarrow> f \<in> set fs \<Longrightarrow> isexcluded e f eps = Inr False"
proof (induction ds arbitrary: fs)
  case Nil
  then show ?case by simp
next
  case (Cons d ds)
  obtain dirpath files where d: "d = (dirpath, files)" by (cases d)
  from Cons.prems(1) d obtain excluded
    where ex: "isexcluded e dirpath eps = Inr excluded"
    by (auto split: sum.splits)
  show ?case
  proof (cases excluded)
    case True
    with Cons.prems(1) d ex have "scan_dirs e eps exts ds = Inr fs" by simp
    from this Cons.prems(2) show ?thesis by (rule Cons.IH)
  next
    case False
    with Cons.prems(1) d ex obtain xs ys
      where xs: "scan_names e eps exts dirpath files = Inr xs"
        and ys: "scan_dirs e eps exts ds = Inr ys"
        and fs: "fs = xs @ ys"
      by (auto split: sum.splits)
    from Cons.prems(2) fs consider "f \<in> set xs" | "f \<in> set ys" by auto
    then show ?thesis
    proof cases
      case 1
      with xs show ?thesis by (rule scan_names_not_excluded)
    next
      case 2
      with ys show ?thesis by (rule Cons.IH)
    qed
  qed
qed

lemma find_files_not_excluded:
  "find_files a e eps = Inr fs \<Longrightarrow> f \<in> set fs \<Longrightarrow> isexcluded e f eps = Inr False"
  unfolding find_files_def by (rule scan_dirs_not_excluded)

lemma config_exclude_paths_keeps:
  "config_exclude_paths e b eps = Inr eps' \<Longrightarrow> set eps \<subseteq> set eps'"
  by (auto simp: config_exclude_paths_def split: option.splits if_splits)

lemma mapfile_in_exclude_paths: "fqcnmapfile a \<in> set (build_exclude_paths a)"
  by (simp add: build_exclude_paths_def)

lemma main_parsed_found:
  assumes "main a e = Inr r" and "(f, ls, nls, symbs) \<in> set (parsed r)"
  shows "\<exists>eps fs. config_exclude_paths e (read_config a e) (build_exclude_paths a) = Inr eps
           \<and> find_files a e eps = Inr fs \<and> f \<in> set fs"
proof -
  from assms(1) obtain d written eps fs rs
    where eps: "config_exclude_paths e (read_config a e) (build_exclude_paths a) = Inr eps"
      and fs: "find_files a e eps = Inr fs"
      and rs: "parse_files d (writefiles a) (backupextension a) (file_lines e) fs = Inr rs"
      and r: "r = \<lparr>mapfile_written = written, parsed = rs\<rparr>"
    by (auto simp: main_def split: sum.splits prod.splits)
  from assms(2) r have "(f, ls, nls, symbs) \<in> set rs" by simp
  then have "fst (f, ls, nls, symbs) \<in> set (map fst rs)"
    unfolding set_map by (rule imageI)
  then have "f \<in> set (map fst rs)" by (simp only: fst_conv)
  with parse_files_paths [OF rs] have "f \<in> set fs" by (simp only:)
  with eps fs show ?thesis by blast
qed

lemma selected_not_mapfile:
  assumes "config_exclude_paths e (read_config a e) (build_exclude_paths a) = Inr eps"
    and "find_files a e eps = Inr fs" and "f \<in> set fs"
  shows "\<not> prefix (abspath e (fqcnmapfile a)) (abspath e f)"
proof -
  from config_exclude_paths_keeps [OF assms(1)] mapfile_in_exclude_paths
  have m: "fqcnmapfile a \<in> set eps" by blast
  from assms(2,3) have "isexcluded e f eps = Inr False" by (rule find_files_not_excluded)
  with isexcluded_mapfile [OF m] show ?thesis by blast
qed

lemma demo_excludes:
  "config_exclude_paths demo_env (read_config demo_args demo_env)
     (build_exclude_paths demo_args) =
   Inr (general_exclude_paths @ [''/w/fqcn.yml'', ''/w/old''])"
  by (simp add: config_exclude_paths_def read_config_def build_exclude_paths_def
        demo_args_def demo_env_def)

lemma demo_files:
  "find_files demo_args demo_env (general_exclude_paths @ [''/w/fqcn.yml'', ''/w/old''])
     = Inr [''/w/site.yml'']"
  by (simp add: find_files_def demo_args_def demo_env_def path_join_def
        general_exclude_paths_def suffix_to_prefix)

lemma demo_main:
  "main demo_args demo_env =
     Inr \<lparr>mapfile_written = None,
          parsed = [(''/w/site.yml'',
                     [''- foo: x\<newline>'', ''- ns.coll.foo: y\<newline>''],
                     [''- ns.coll.foo: x\<newline>'', ''- ns.coll.foo: y\<newline>''], ''*.'')]\<rparr>"
proof -
  have parse: "parse_files foo_map (writefiles demo_args) (backupextension demo_args)
                 (file_lines demo_env) [''/w/site.yml''] =
                 Inr [(''/w/site.yml'',
                       [''- foo: x\<newline>'', ''- ns.coll.foo: y\<newline>''],
                       [''- ns.coll.foo: x\<newline>'', ''- ns.coll.foo: y\<newline>''], ''*.'')]"
    by (simp add: demo_env_def demo_args_def foo_map_eq eval_defs)
  then show ?thesis
    by (simp add: main_def demo_build_loaded demo_excludes demo_files)
qed

lemma slash_main:
  "main slash_args slash_env =
     Inr \<lparr>mapfile_written = None,
          parsed = [(''/w/site.yml'',
                     [''- foo: x\<newline>'', ''- ns.coll.foo: y\<newline>''],
                     [''- ns.coll.foo: x\<newline>'', ''- ns.coll.foo: y\<newline>''], ''*.''),
                    (''/w/fqcn.yml'',
                     [''  foo: ns.coll.foo\<newline>''],
                     [''  ns.coll.foo: ns.coll.foo\<newline>''], ''*'')]\<rparr>"
proof -
  have build: "build_map slash_args slash_env = Inr (foo_map, None)"
    by (simp add: build_map_def slash_args_def slash_env_def demo_args_def foo_map_def)
  have eps: "config_exclude_paths slash_env (read_config slash_args slash_env)
               (build_exclude_paths slash_args) =
             Inr (general_exclude_paths @ [''//w/fqcn.yml'', ''/w/old''])"
    by (simp add: config_exclude_paths_def read_config_def build_exclude_paths_def
          slash_args_def slash_env_def demo_args_def demo_env_def)
  have files: "find_files slash_args slash_env
                 (general_exclude_paths @ [''//w/fqcn.yml'', ''/w/old''])
                 = Inr [''/w/site.yml'', ''/w/fqcn.yml'']"
    by (simp add: find_files_def slash_args_def slash_env_def demo_args_def demo_env_def
          path_join_def general_exclude_paths_def suffix_to_prefix)
  have parse: "parse_files foo_map (writefiles slash_args) (backupextension slash_args)
                 (file_lines slash_env) [''/w/site.yml'', ''/w/fqcn.yml''] =
               Inr [(''/w/site.yml'',
                     [''- foo: x\<newline>'', ''- ns.coll.foo: y\<newline>''],
                     [''- ns.coll.foo: x\<newline>'', ''- ns.coll.foo: y\<newline>''], ''*.''),
                    (''/w/fqcn.yml'',
                     [''  foo: ns.coll.foo\<newline>''],
                     [''  ns.coll.foo: ns.coll.foo\<newline>''], ''*'')]"
    by (simp add: slash_args_def slash_env_def demo_env_def demo_args_def foo_map_eq eval_defs)
  then show ?thesis
    by (simp add: main_def build eps files)
qed

text \<open>
  C9, as the code has it. Line 183 appends the path of the map file to the exclusion
  list, whatever the arguments and the config file hold. So in every run, also one
  that a later file ends with a raise, no file selected for parsing has an absolute
  path that starts with the absolute path of the map file as it was given; in
  particular no selected path is that path, as given or made absolute, and no file
  of the report of a run that ends normally is.
\<close>

theorem mapfile_never_parsed:
  "(config_exclude_paths e (read_config a e) (build_exclude_paths a) = Inr eps \<longrightarrow>
      find_files a e eps = Inr fs \<longrightarrow> f \<in> set fs \<longrightarrow>
        \<not> prefix (abspath e (fqcnmapfile a)) (abspath e f)
        \<and> abspath e f \<noteq> abspath e (fqcnmapfile a) \<and> f \<noteq> fqcnmapfile a)
   \<and> (main a e = Inr r \<longrightarrow> (f, ls, nls, symbs) \<in> set (parsed r) \<longrightarrow>
        \<not> prefix (abspath e (fqcnmapfile a)) (abspath e f)
        \<and> abspath e f \<noteq> abspath e (fqcnmapfile a) \<and> f \<noteq> fqcnmapfile a)"
proof -
  have selected: "\<not> prefix (abspath e (fqcnmapfile a)) (abspath e g)
        \<and> abspath e g \<noteq> abspath e (fqcnmapfile a) \<and> g \<noteq> fqcnmapfile a"
    if "config_exclude_paths e (read_config a e) (build_exclude_paths a) = Inr eps'"
      and "find_files a e eps' = Inr fs'" and "g \<in> set fs'" for eps' fs' g
  proof -
    from that have "\<not> prefix (abspath e (fqcnmapfile a)) (abspath e g)"
      by (rule selected_not_mapfile)
    then show ?thesis by auto
  qed
  have reported: "\<not> prefix (abspath e (fqcnmapfile a)) (abspath e f)
        \<and> abspath e f \<noteq> abspath e (fqcnmapfile a) \<and> f \<noteq> fqcnmapfile a"
    if "main a e = Inr r" and "(f, ls, nls, symbs) \<in> set (parsed r)"
  proof -
    from main_parsed_found [OF that] obtain eps' fs'
      where "config_exclude_paths e (read_config a e) (build_exclude_paths a) = Inr eps'"
        and "find_files a e eps' = Inr fs'" and "f \<in> set fs'"
      by blast
    then show ?thesis by (rule selected)
  qed
  from selected [of eps fs f] reported show ?thesis by blast
qed

theorem mapfile_never_parsed_witness:
  "main demo_args demo_env =
     Inr \<lparr>mapfile_written = None,
          parsed = [(''/w/site.yml'',
                     [''- foo: x\<newline>'', ''- ns.coll.foo: y\<newline>''],
                     [''- ns.coll.foo: x\<newline>'', ''- ns.coll.foo: y\<newline>''], ''*.'')]\<rparr>
   \<and> find_files demo_args demo_env (general_exclude_paths @ [''/w/fqcn.yml'', ''/w/old''])
       = Inr [''/w/site.yml'']
   \<and> walk demo_env (abspath demo_env (directory demo_args)) = [(''/w'', [''site.yml'', ''fqcn.yml''])]
   \<and> path_join ''/w'' ''fqcn.yml'' = fqcnmapfile demo_args
   \<and> suffix ''yml'' ''fqcn.yml''
   \<and> ''/w/site.yml'' \<noteq> fqcnmapfile demo_args"
proof -
  let ?entry = "(''/w/site.yml'',
                     [''- foo: x\<newline>'', ''- ns.coll.foo: y\<newline>''],
                     [''- ns.coll.foo: x\<newline>'', ''- ns.coll.foo: y\<newline>''], ''*.'')"
  let ?r = "\<lparr>mapfile_written = None, parsed = [?entry]\<rparr>"
  have h: "?entry \<in> set (parsed ?r)" by simp
  have g: "''/w/site.yml'' \<in> set [''/w/site.yml'']" by simp
  from mapfile_never_parsed [of demo_env demo_args
      "general_exclude_paths @ [''/w/fqcn.yml'', ''/w/old'']" "[''/w/site.yml'']" "''/w/site.yml''"
      ?r "[''- foo: x\<newline>'', ''- ns.coll.foo: y\<newline>'']"
      "[''- ns.coll.foo: x\<newline>'', ''- ns.coll.foo: y\<newline>'']" "''*.''"]
    demo_excludes demo_files demo_main h g
  have "''/w/site.yml'' \<noteq> fqcnmapfile demo_args" by blast
  with demo_main demo_files show ?thesis
    by (simp add: demo_env_def demo_args_def path_join_def suffix_to_prefix)
qed

text \<open>
  The exclusion goes by the text of the path, not by the file. Given as
  \<^verbatim>\<open>//w/fqcn.yml\<close>, the map file is read for the map, and the walk of \<^verbatim>\<open>/w\<close>
  finds it as \<^verbatim>\<open>/w/fqcn.yml\<close>, which no test of the exclusion list holds back: it
  is parsed, and its line is rewritten.
\<close>

theorem mapfile_parsed_counterexample:
  "fqcn_yaml slash_env (fqcnmapfile slash_args) = Some [(''foo'', ''ns.coll.foo'')]
   \<and> abspath slash_env (fqcnmapfile slash_args) = ''//w/fqcn.yml''
   \<and> abspath slash_env ''/w/fqcn.yml'' = ''/w/fqcn.yml''
   \<and> main slash_args slash_env =
     Inr \<lparr>mapfile_written = None,
          parsed = [(''/w/site.yml'',
                     [''- foo: x\<newline>'', ''- ns.coll.foo: y\<newline>''],
                     [''- ns.coll.foo: x\<newline>'', ''- ns.coll.foo: y\<newline>''], ''*.''),
                    (''/w/fqcn.yml'',
                     [''  foo: ns.coll.foo\<newline>''],
                     [''  ns.coll.foo: ns.coll.foo\<newline>''], ''*'')]\<rparr>"
  using slash_main
  by (simp add: slash_args_def slash_env_def demo_env_def demo_args_def)

end
